theory Spec2Isabelle
  imports Main "HOL-Library.Sublist"
begin

section \<open>Characters and strings of the scanner\<close>

text \<open>
  The MRZ core of \<^verbatim>\<open>app/pages/index.vue\<close> works on JavaScript strings. They are
  modelled as \<^typ>\<open>string\<close>, one \<^typ>\<open>char\<close> per code unit, read as ASCII: the OCR
  engine is configured with the whitelist \<^verbatim>\<open>A-Z0-9<\<close>, and on ASCII text the functions
  below compute what the JavaScript built-ins compute. Numbers are JavaScript doubles in
  the source; every number of the core is a small integer, modelled as \<^typ>\<open>int\<close>, and
  the not-a-number value of \<^verbatim>\<open>parseInt\<close> is \<^term>\<open>None\<close>.
\<close>

definition charCode :: "char \<Rightarrow> nat" where
  \<comment> \<open>\<^verbatim>\<open>c.charCodeAt(0)\<close>\<close>
  "charCode c = of_char c"

definition isDigit :: "char \<Rightarrow> bool" where
  \<comment> \<open>the class \<^verbatim>\<open>[0-9]\<close>\<close>
  "isDigit c = (48 \<le> charCode c \<and> charCode c \<le> 57)"

definition isUpperAZ :: "char \<Rightarrow> bool" where
  \<comment> \<open>the class \<^verbatim>\<open>[A-Z]\<close>\<close>
  "isUpperAZ c = (65 \<le> charCode c \<and> charCode c \<le> 90)"

definition isLowerAZ :: "char \<Rightarrow> bool" where
  "isLowerAZ c = (97 \<le> charCode c \<and> charCode c \<le> 122)"

definition isWhitespace :: "char \<Rightarrow> bool" where
  \<comment> \<open>the class \<^verbatim>\<open>\s\<close> on ASCII: tab, line feed, vertical tab, form feed, carriage
      return and space; \<^verbatim>\<open>trim()\<close> removes the same characters\<close>
  "isWhitespace c = ((9 \<le> charCode c \<and> charCode c \<le> 13) \<or> charCode c = 32)"

definition toUpperChar :: "char \<Rightarrow> char" where
  "toUpperChar c = (if isLowerAZ c then char_of (charCode c - 32) else c)"

definition toUpperCase :: "string \<Rightarrow> string" where
  "toUpperCase s = map toUpperChar s"

definition substring :: "string \<Rightarrow> nat \<Rightarrow> nat \<Rightarrow> string" where
  \<comment> \<open>\<^verbatim>\<open>s.substring(a, b)\<close>: both indices are clamped to the length and swapped when
      \<^verbatim>\<open>a > b\<close>\<close>
  "substring s a b = take (max a b - min a b) (drop (min a b) s)"

definition substringFrom :: "string \<Rightarrow> nat \<Rightarrow> string" where
  \<comment> \<open>\<^verbatim>\<open>s.substring(a)\<close>\<close>
  "substringFrom s a = drop a s"

definition charAt :: "string \<Rightarrow> nat \<Rightarrow> string option" where
  \<comment> \<open>\<^verbatim>\<open>s[i]\<close>: a one-character string, or \<^verbatim>\<open>undefined\<close> (\<^term>\<open>None\<close>) out of range\<close>
  "charAt s i = (if i < length s then Some [s ! i] else None)"

definition toStringJS :: "string option \<Rightarrow> string" where
  \<comment> \<open>string conversion of a value that is a string or \<^verbatim>\<open>undefined\<close>, as done by
      \<^verbatim>\<open>parseInt\<close> on its argument and by template literals\<close>
  "toStringJS v = (case v of None \<Rightarrow> ''undefined'' | Some s \<Rightarrow> s)"

subsection \<open>Numbers to text and back\<close>

definition digitChar :: "nat \<Rightarrow> char" where
  "digitChar d = ''0123456789'' ! (d mod 10)"

fun showNat :: "nat \<Rightarrow> string" where
  "showNat n = (if n < 10 then [digitChar n] else showNat (n div 10) @ [digitChar (n mod 10)])"

declare showNat.simps [simp del]

definition showNumber :: "int option \<Rightarrow> string" where
  \<comment> \<open>\<^verbatim>\<open>String(n)\<close> for an integer-valued number or NaN\<close>
  "showNumber v = (case v of None \<Rightarrow> ''NaN''
     | Some n \<Rightarrow> if n < 0 then CHR ''-'' # showNat (nat (- n)) else showNat (nat n))"

definition digitOf :: "nat \<Rightarrow> char \<Rightarrow> nat option" where
  \<comment> \<open>the value of a character as a digit in the given radix, if it is one\<close>
  "digitOf radix c =
     (let v = (if isDigit c then Some (charCode c - 48)
               else if isLowerAZ c then Some (charCode c - 87)
               else if isUpperAZ c then Some (charCode c - 55)
               else None)
      in case v of None \<Rightarrow> None | Some d \<Rightarrow> if d < radix then Some d else None)"

definition digitsValue :: "nat \<Rightarrow> string \<Rightarrow> nat" where
  "digitsValue radix ds = foldl (\<lambda>acc c. acc * radix + (case digitOf radix c of Some d \<Rightarrow> d | None \<Rightarrow> 0)) 0 ds"

definition hasHexPrefix :: "string \<Rightarrow> bool" where
  "hasHexPrefix s = (take 2 s = ''0x'' \<or> take 2 s = ''0X'')"

definition parseInt :: "string \<Rightarrow> nat option \<Rightarrow> int option" where
  \<comment> \<open>\<^verbatim>\<open>parseInt(s, radix)\<close>, the radix \<^term>\<open>None\<close> when omitted: leading whitespace is
      skipped, a sign is read, a \<^verbatim>\<open>0x\<close> prefix selects radix 16 when the radix is omitted
      or 16, the longest prefix of digits is converted, and no digit at all gives NaN\<close>
  "parseInt s radix =
     (let t = dropWhile isWhitespace s;
          neg = (take 1 t = ''-'');
          u = (if take 1 t = ''-'' \<or> take 1 t = ''+'' then drop 1 t else t);
          hex = ((radix = None \<or> radix = Some 16) \<and> hasHexPrefix u);
          r = (if hex then 16 else (case radix of None \<Rightarrow> 10 | Some k \<Rightarrow> k));
          v = (if hex then drop 2 u else u);
          ds = takeWhile (\<lambda>c. digitOf r c \<noteq> None) v
      in if ds = [] then None
         else Some ((if neg then - 1 else 1) * int (digitsValue r ds)))"

section \<open>The 7-3-1 check digit\<close>

definition getCharValue :: "char \<Rightarrow> int" where
  \<comment> \<open>the guard \<^verbatim>\<open>/[0-9]/\<close> makes the argument of \<^verbatim>\<open>parseInt\<close> a digit, so NaN does
      not arise in the first branch\<close>
  "getCharValue c =
     (if isDigit c then (case parseInt [c] (Some 10) of Some v \<Rightarrow> v | None \<Rightarrow> 0)
      else if isUpperAZ c then int (charCode c) - 55
      else if c = CHR ''<'' then 0
      else 0)"

definition weights :: "int list" where
  "weights = [7, 3, 1]"

function checkDigitLoop :: "string \<Rightarrow> nat \<Rightarrow> int \<Rightarrow> int" where
  \<comment> \<open>the \<^verbatim>\<open>for\<close> loop of \<^verbatim>\<open>calculateCheckDigit\<close>, from index \<open>i\<close> with the running sum\<close>
  "checkDigitLoop data i acc =
     (if i < length data
      then checkDigitLoop data (i + 1) (acc + getCharValue (data ! i) * weights ! (i mod 3))
      else acc)"
  by pat_completeness auto
termination
  by (relation "measure (\<lambda>(data, i, acc). length data - i)") auto

declare checkDigitLoop.simps [simp del]

definition calculateCheckDigit :: "string \<Rightarrow> int" where
  \<comment> \<open>the sum is never negative, so the remainder \<^verbatim>\<open>%\<close> is \<open>mod\<close>\<close>
  "calculateCheckDigit data = checkDigitLoop data 0 0 mod 10"

section \<open>Field verification and the decoders\<close>

definition quoteChar :: char where
  "quoteChar = CHR 0x27"

definition verifyField :: "string \<Rightarrow> string option \<Rightarrow> string \<Rightarrow> int \<Rightarrow> string option" where
  \<comment> \<open>\<^verbatim>\<open>null\<close> (\<^term>\<open>None\<close>) when the field is valid, the error text otherwise; the
      check character is what \<^verbatim>\<open>l[i]\<close> gave, a string or \<^verbatim>\<open>undefined\<close>\<close>
  "verifyField fieldValue checkDigitChar type line =
     (let calculated = calculateCheckDigit fieldValue;
          expected = parseInt (toStringJS checkDigitChar) (Some 10)
      in if expected = None
         then Some (''Invalid check digit format for '' @ type @ '' (Line ''
                @ showNumber (Some line) @ ''): '' @ [quoteChar]
                @ toStringJS checkDigitChar @ [quoteChar])
         else if Some calculated \<noteq> expected
         then Some (type @ '' check failed (Line '' @ showNumber (Some line)
                @ ''). Expected '' @ showNumber (Some calculated)
                @ '', found '' @ showNumber expected @ ''. Value: '' @ fieldValue)
         else None)"

definition pushError :: "string list \<Rightarrow> string option \<Rightarrow> string list" where
  \<comment> \<open>\<^verbatim>\<open>if (err) errors.push(err)\<close>: \<^verbatim>\<open>null\<close> and the empty string are falsy\<close>
  "pushError errs e = (case e of None \<Rightarrow> errs | Some m \<Rightarrow> if m = [] then errs else errs @ [m])"

definition removeFillers :: "string \<Rightarrow> string" where
  \<comment> \<open>\<^verbatim>\<open>s.replace(/</g, '')\<close>\<close>
  "removeFillers s = filter (\<lambda>c. c \<noteq> CHR ''<'') s"

definition fillersToSpaces :: "string \<Rightarrow> string" where
  \<comment> \<open>\<^verbatim>\<open>s.replace(/</g, ' ')\<close>\<close>
  "fillersToSpaces s = map (\<lambda>c. if c = CHR ''<'' then CHR '' '' else c) s"

definition trim :: "string \<Rightarrow> string" where
  "trim s = rev (dropWhile isWhitespace (rev (dropWhile isWhitespace s)))"

definition dropTrailingFillers :: "string \<Rightarrow> string" where
  \<comment> \<open>\<^verbatim>\<open>s.replace(/<+$/, '')\<close>\<close>
  "dropTrailingFillers s = rev (dropWhile (\<lambda>c. c = CHR ''<'') (rev s))"

fun splitLoop :: "string \<Rightarrow> string \<Rightarrow> string list" where
  \<comment> \<open>\<^verbatim>\<open>split('<<')\<close> scanning from the left, \<open>cur\<close> the piece read so far\<close>
  "splitLoop cur [] = [cur]"
| "splitLoop cur [a] = [cur @ [a]]"
| "splitLoop cur (a # b # r) =
     (if a = CHR ''<'' \<and> b = CHR ''<'' then cur # splitLoop [] r
      else splitLoop (cur @ [a]) (b # r))"

definition splitSeparator :: "string \<Rightarrow> string list" where
  "splitSeparator s = splitLoop [] s"

definition formatYMD :: "string \<Rightarrow> string" where
  \<comment> \<open>declared twice in the source, with the same body, inside each decoder\<close>
  "formatYMD val =
     (if length val \<noteq> 6 \<or> CHR ''<'' \<in> set val then val
      else let yy = parseInt (substring val 0 2) None;
               mm = substring val 2 4;
               dd = substring val 4 6;
               year = (if (case yy of None \<Rightarrow> False | Some y \<Rightarrow> y > 50)
                       then ''19'' @ showNumber yy else ''20'' @ showNumber yy)
           in year @ ''-'' @ mm @ ''-'' @ dd)"

datatype DocumentType = PASSPORT | ID_CARD

datatype VerificationStatus = VALID | INVALID

datatype error = TypeError

record NameFields =
  surname :: string
  given_names :: string

record UnifiedMrzResult =
  document_type :: DocumentType
  document_number :: string
  series :: string
  nationality :: string
  birth_date :: string
  sex :: "string option"
  expiry_date :: string
  personal_number :: string
  names :: NameFields
  verification_status :: VerificationStatus
  errors :: "string list"
  raw_lines :: "string list"
  cleaned_lines :: "string list"

definition td3Errors :: "string \<Rightarrow> string list" where
  \<comment> \<open>the five checks of \<^verbatim>\<open>parseTD3\<close> on line 2, pushed in the source's order\<close>
  "td3Errors l2 =
     (let docNum = substring l2 0 9;
          docNumCheck = charAt l2 9;
          dob = substring l2 13 19;
          dobCheck = charAt l2 19;
          expiry = substring l2 21 27;
          expiryCheck = charAt l2 27;
          personalNum_raw = substring l2 28 42;
          personalCheck = charAt l2 42;
          compositeCheck = charAt l2 43;
          errors1 = pushError [] (verifyField docNum docNumCheck ''Document Number'' 2);
          errors2 = pushError errors1 (verifyField dob dobCheck ''Date of Birth'' 2);
          errors3 = pushError errors2 (verifyField expiry expiryCheck ''Expiration Date'' 2);
          errors4 = pushError errors3
                      (verifyField personalNum_raw personalCheck ''Personal Number'' 2);
          compositeString = substring l2 0 10 @ substring l2 13 20 @ substring l2 21 43
      in pushError errors4 (verifyField compositeString compositeCheck ''Composite (Final)'' 2))"

definition parseTD3 :: "string list \<Rightarrow> error + UnifiedMrzResult" where
  \<comment> \<open>\<^verbatim>\<open>lines[0]\<close> or \<^verbatim>\<open>lines[1]\<close> missing makes \<^verbatim>\<open>substring\<close> throw a TypeError;
      the source also computes \<^verbatim>\<open>issuer\<close>, which the record does not use\<close>
  "parseTD3 lines =
     (case lines of
        l1 # l2 # _ \<Rightarrow>
          (let nameSection = substring l1 5 44;
               nameParts = splitSeparator nameSection;
               surname = trim (fillersToSpaces (nameParts ! 0));
               givenNames = (if length nameParts > 1
                             then trim (fillersToSpaces (nameParts ! 1)) else []);
               docNum = substring l2 0 9;
               nationality = removeFillers (substring l2 10 13);
               dob = substring l2 13 19;
               sex = charAt l2 20;
               expiry = substring l2 21 27;
               personalNum = removeFillers (substring l2 28 42);
               errors = td3Errors l2;
               series = substring docNum 0 2
           in Inr \<lparr> document_type = PASSPORT,
                    document_number = removeFillers docNum,
                    series = removeFillers series,
                    nationality = nationality,
                    birth_date = formatYMD dob,
                    sex = sex,
                    expiry_date = formatYMD expiry,
                    personal_number = personalNum,
                    names = \<lparr> surname = surname, given_names = givenNames \<rparr>,
                    verification_status = (if length errors = 0 then VALID else INVALID),
                    errors = errors,
                    raw_lines = lines,
                    cleaned_lines = lines \<rparr>)
      | _ \<Rightarrow> Inl TypeError)"

definition td1Errors :: "string \<Rightarrow> string \<Rightarrow> string list" where
  \<comment> \<open>the four checks of \<^verbatim>\<open>parseTD1\<close>, pushed in the source's order\<close>
  "td1Errors l1 l2 =
     (let docNum = substring l1 5 14;
          docNumCheck = charAt l1 14;
          dob = substring l2 0 6;
          dobCheck = charAt l2 6;
          expiry = substring l2 8 14;
          expiryCheck = charAt l2 14;
          compositeString = substring l1 5 30 @ substring l2 0 7 @ substring l2 8 15
                              @ substring l2 18 29;
          compositeCheck = charAt l2 29;
          errors1 = pushError [] (verifyField docNum docNumCheck ''Document Number'' 1);
          errors2 = pushError errors1 (verifyField dob dobCheck ''Date of Birth'' 2);
          errors3 = pushError errors2 (verifyField expiry expiryCheck ''Expiration Date'' 2)
      in pushError errors3 (verifyField compositeString compositeCheck ''Composite (Final)'' 2))"

definition parseTD1 :: "string list \<Rightarrow> error + UnifiedMrzResult" where
  "parseTD1 lines =
     (case lines of
        l1 # l2 # l3 # _ \<Rightarrow>
          (let docNum = substring l1 5 14;
               personalNum = removeFillers (substring l1 15 30);
               dob = substring l2 0 6;
               sex = charAt l2 7;
               expiry = substring l2 8 14;
               nationality = removeFillers (substring l2 15 18);
               errors = td1Errors l1 l2;
               l3_clean = dropTrailingFillers l3;
               nameParts = splitSeparator l3_clean;
               surname = trim (fillersToSpaces (nameParts ! 0));
               givenNames = (if length nameParts > 1
                             then trim (fillersToSpaces (nameParts ! 1)) else []);
               series = substring docNum 0 2
           in Inr \<lparr> document_type = ID_CARD,
                    document_number = removeFillers docNum,
                    series = removeFillers series,
                    nationality = nationality,
                    birth_date = formatYMD dob,
                    sex = sex,
                    expiry_date = formatYMD expiry,
                    personal_number = personalNum,
                    names = \<lparr> surname = surname, given_names = givenNames \<rparr>,
                    verification_status = (if length errors = 0 then VALID else INVALID),
                    errors = errors,
                    raw_lines = lines,
                    cleaned_lines = lines \<rparr>)
      | _ \<Rightarrow> Inl TypeError)"

section \<open>The line extractor\<close>

fun splitLinesLoop :: "string \<Rightarrow> string \<Rightarrow> string list" where
  \<comment> \<open>\<^verbatim>\<open>text.split('\n')\<close> scanning from the left, \<open>cur\<close> the line read so far\<close>
  "splitLinesLoop cur [] = [cur]"
| "splitLinesLoop cur (c # r) =
     (if c = CHR 0x0A then cur # splitLinesLoop [] r else splitLinesLoop (cur @ [c]) r)"

definition splitLines :: "string \<Rightarrow> string list" where
  "splitLines text = splitLinesLoop [] text"

definition stripWhitespace :: "string \<Rightarrow> string" where
  \<comment> \<open>\<^verbatim>\<open>line.replace(/\s/g, '')\<close>\<close>
  "stripWhitespace line = filter (\<lambda>c. \<not> isWhitespace c) line"

definition isMrzChar :: "char \<Rightarrow> bool" where
  \<comment> \<open>the class \<^verbatim>\<open>[A-Z0-9<]\<close>\<close>
  "isMrzChar c = (isUpperAZ c \<or> isDigit c \<or> c = CHR ''<'')"

definition looksLikeMrz :: "string \<Rightarrow> bool" where
  \<comment> \<open>the predicate given to \<^verbatim>\<open>lines.filter\<close>\<close>
  "looksLikeMrz line =
     (let cleanLine = stripWhitespace line;
          hasMrzChars = list_ex isMrzChar cleanLine;
          isValidLength = (length cleanLine \<ge> 20 \<and> length cleanLine \<le> 100);
          chevronCount = length (filter (\<lambda>c. c = CHR ''<'') cleanLine)
      in hasMrzChars \<and> isValidLength \<and>
         (chevronCount \<ge> 2 \<or> length cleanLine = 30 \<or> length cleanLine = 36
          \<or> length cleanLine = 44))"

definition extractMrzFromText :: "string \<Rightarrow> string list" where
  "extractMrzFromText text =
     (let lines = map trim (splitLines text);
          mrzLines = filter looksLikeMrz lines
      in map (\<lambda>l. toUpperCase (stripWhitespace l)) mrzLines)"

section \<open>The line normalizer\<close>

definition isSLCK :: "char \<Rightarrow> bool" where
  "isSLCK c = (c = CHR ''S'' \<or> c = CHR ''L'' \<or> c = CHR ''C'' \<or> c = CHR ''K'')"

definition isLCK :: "char \<Rightarrow> bool" where
  "isLCK c = (c = CHR ''L'' \<or> c = CHR ''C'' \<or> c = CHR ''K'')"

definition isCL :: "char \<Rightarrow> bool" where
  "isCL c = (c = CHR ''C'' \<or> c = CHR ''L'')"

definition isLetterOrFiller :: "char \<Rightarrow> bool" where
  \<comment> \<open>the class \<^verbatim>\<open>[A-Z<]\<close>\<close>
  "isLetterOrFiller c = (isUpperAZ c \<or> c = CHR ''<'')"

definition isTailChar :: "char \<Rightarrow> bool" where
  \<comment> \<open>the class \<^verbatim>\<open>[LCK<]\<close>\<close>
  "isTailChar c = (isLCK c \<or> c = CHR ''<'')"

definition matchesStart :: "char \<Rightarrow> string \<Rightarrow> bool" where
  \<comment> \<open>\<^verbatim>\<open>/^P[SLCK][A-Z<]{3}/.test(s)\<close>, and the same with \<^verbatim>\<open>I\<close>, the first letter \<open>p\<close>\<close>
  "matchesStart p s =
     (case s of
        a # b # c # d # e # _ \<Rightarrow>
          a = p \<and> isSLCK b \<and> isLetterOrFiller c \<and> isLetterOrFiller d \<and> isLetterOrFiller e
      | _ \<Rightarrow> False)"

definition fixStart :: "string \<Rightarrow> string" where
  \<comment> \<open>rule 1 of \<^verbatim>\<open>cleanMrzLine\<close>\<close>
  "fixStart cleaned =
     (let cleaned1 = (if matchesStart CHR ''P'' cleaned
                      then ''P<'' @ substringFrom cleaned 2 else cleaned)
      in if matchesStart CHR ''I'' cleaned1
         then ''I<'' @ substringFrom cleaned1 2 else cleaned1)"

definition startsCLLetter :: "string \<Rightarrow> bool" where
  \<comment> \<open>the text ahead is \<^verbatim>\<open>[CL]\<close> with \<^verbatim>\<open>[A-Z]\<close> after it\<close>
  "startsCLLetter t = (case t of b # c # _ \<Rightarrow> isCL b \<and> isUpperAZ c | _ \<Rightarrow> False)"

definition startsFillerCLLetter :: "string \<Rightarrow> bool" where
  \<comment> \<open>the text ahead is \<^verbatim>\<open><[CL]\<close> with \<^verbatim>\<open>[A-Z]\<close> after it\<close>
  "startsFillerCLLetter t =
     (case t of b # c # d # _ \<Rightarrow> b = CHR ''<'' \<and> isCL c \<and> isUpperAZ d | _ \<Rightarrow> False)"

function sepScan :: "bool \<Rightarrow> string \<Rightarrow> string" where
  \<comment> \<open>\<^verbatim>\<open>replace(/(^|[^<])<[CL](?=[A-Z])/g, '$1<<')\<close>: the scan of the regular expression
      from the left, \<open>atStart\<close> at index 0 only. At each position the alternative
      \<^verbatim>\<open>^\<close> is tried first, then \<^verbatim>\<open>[^<]\<close>; a match is replaced and the scan goes on
      after it, the looked-ahead letter not consumed; otherwise one character is copied.\<close>
  "sepScan atStart s =
     (case s of
        [] \<Rightarrow> []
      | a # t \<Rightarrow>
          if atStart \<and> a = CHR ''<'' \<and> startsCLLetter t
          then ''<<'' @ sepScan False (drop 1 t)
          else if a \<noteq> CHR ''<'' \<and> startsFillerCLLetter t
          then a # ''<<'' @ sepScan False (drop 2 t)
          else a # sepScan False t)"
  by pat_completeness auto
termination
  by (relation "measure (\<lambda>(atStart, s). length s)") auto

declare sepScan.simps [simp del]

definition fixSeparators :: "string \<Rightarrow> string" where
  \<comment> \<open>rule 2 of \<^verbatim>\<open>cleanMrzLine\<close>\<close>
  "fixSeparators cleaned = sepScan True cleaned"

fun tailMatchIndex :: "string \<Rightarrow> nat option" where
  \<comment> \<open>\<^verbatim>\<open>cleaned.match(/[LCK<]{3,}$/)\<close>: the index of the leftmost position from which
      the rest of the line is three or more characters of the class, if there is one\<close>
  "tailMatchIndex [] = None"
| "tailMatchIndex (a # t) =
     (if length (a # t) \<ge> 3 \<and> list_all isTailChar (a # t) then Some 0
      else map_option Suc (tailMatchIndex t))"

definition fixTailFillers :: "string \<Rightarrow> string" where
  \<comment> \<open>rule 3 of \<^verbatim>\<open>cleanMrzLine\<close>\<close>
  "fixTailFillers cleaned =
     (case tailMatchIndex cleaned of
        None \<Rightarrow> cleaned
      | Some index \<Rightarrow>
          (let tail = drop index cleaned
           in if list_ex isLCK tail
              then substring cleaned 0 index @ map (\<lambda>c. if isLCK c then CHR ''<'' else c) tail
              else cleaned))"

definition startsWith :: "string \<Rightarrow> string \<Rightarrow> bool" where
  "startsWith s p = (take (length p) s = p)"

definition padEnd :: "string \<Rightarrow> nat \<Rightarrow> char \<Rightarrow> string" where
  "padEnd s n c = s @ replicate (n - length s) c"

definition fixLength :: "string \<Rightarrow> string" where
  \<comment> \<open>rule 4 of \<^verbatim>\<open>cleanMrzLine\<close>\<close>
  "fixLength cleaned =
     (let cleaned1 = (if startsWith cleaned ''P<'' \<and> length cleaned < 44 \<and> length cleaned > 30
                      then padEnd cleaned 44 CHR ''<'' else cleaned)
      in if startsWith cleaned1 ''I<'' \<and> length cleaned1 < 30 \<and> length cleaned1 > 20
         then padEnd cleaned1 30 CHR ''<'' else cleaned1)"

definition cleanMrzLine :: "string \<Rightarrow> string" where
  \<comment> \<open>the four repairs of the source in their order, each on the result of the one before\<close>
  "cleanMrzLine line = fixLength (fixTailFillers (fixSeparators (fixStart (toUpperCase line))))"

section \<open>The format resolver\<close>

definition tryParseCustom :: "string list \<Rightarrow> UnifiedMrzResult option" where
  \<comment> \<open>an exception of a decoder is caught and gives \<^verbatim>\<open>null\<close>\<close>
  "tryParseCustom lines =
     (if length lines = 2 \<and> length (lines ! 0) = 44 \<and> length (lines ! 1) = 44
      then (case parseTD3 lines of Inr r \<Rightarrow> Some r | Inl e \<Rightarrow> None)
      else if length lines = 3 \<and> length (lines ! 0) = 30 \<and> length (lines ! 1) = 30
              \<and> length (lines ! 2) = 30
      then (case parseTD1 lines of Inr r \<Rightarrow> Some r | Inl e \<Rightarrow> None)
      else None)"

definition getCandidates :: "string \<Rightarrow> nat \<Rightarrow> string list" where
  "getCandidates line targetLen =
     (if length line = targetLen then [line] else [])
     @ (if length line > targetLen
        then map (\<lambda>i. substring line i (i + targetLen)) [0..<length line - targetLen + 1]
        else [])"

definition isValidResult :: "UnifiedMrzResult option \<Rightarrow> bool" where
  \<comment> \<open>\<^verbatim>\<open>res && res.verification_status === 'VALID'\<close>\<close>
  "isValidResult res = (case res of None \<Rightarrow> False | Some r \<Rightarrow> verification_status r = VALID)"

fun td3Inner :: "string \<Rightarrow> string list \<Rightarrow> UnifiedMrzResult option \<Rightarrow> UnifiedMrzResult option" where
  \<comment> \<open>the loop over \<^verbatim>\<open>l2Candidates\<close>; \<^verbatim>\<open>break\<close> ends it with the valid record\<close>
  "td3Inner c1 [] result = result"
| "td3Inner c1 (c2 # rest) result =
     (let res = tryParseCustom [c1, c2]
      in if isValidResult res then res
         else td3Inner c1 rest (if res \<noteq> None then res else result))"

fun td3Outer :: "string list \<Rightarrow> string list \<Rightarrow> UnifiedMrzResult option \<Rightarrow> UnifiedMrzResult option" where
  \<comment> \<open>the loop over \<^verbatim>\<open>l1Candidates\<close>\<close>
  "td3Outer [] l2Candidates result = result"
| "td3Outer (c1 # rest) l2Candidates result =
     (let result1 = td3Inner c1 l2Candidates result
      in if isValidResult result1 then result1 else td3Outer rest l2Candidates result1)"

definition sliceLast :: "nat \<Rightarrow> 'a list \<Rightarrow> 'a list" where
  \<comment> \<open>\<^verbatim>\<open>xs.slice(-n)\<close>\<close>
  "sliceLast n xs = drop (length xs - n) xs"

definition td3Attempt :: "string list \<Rightarrow> UnifiedMrzResult option \<Rightarrow> UnifiedMrzResult option" where
  "td3Attempt mrzLines result =
     (if result = None \<and> length mrzLines \<ge> 2
      then (let last2 = sliceLast 2 mrzLines;
                l1Candidates = getCandidates (last2 ! 0) 44;
                l2Candidates = getCandidates (last2 ! 1) 44
            in td3Outer l1Candidates l2Candidates result)
      else result)"

fun td1Inner :: "string \<Rightarrow> string \<Rightarrow> string list \<Rightarrow> UnifiedMrzResult option \<Rightarrow> UnifiedMrzResult option" where
  \<comment> \<open>the loop over \<^verbatim>\<open>l3C\<close>\<close>
  "td1Inner c1 c2 [] result = result"
| "td1Inner c1 c2 (c3 # rest) result =
     (let res = tryParseCustom [c1, c2, c3]
      in if isValidResult res then res
         else td1Inner c1 c2 rest (if res \<noteq> None \<and> result = None then res else result))"

fun td1Middle :: "string \<Rightarrow> string list \<Rightarrow> string list \<Rightarrow> UnifiedMrzResult option \<Rightarrow> UnifiedMrzResult option" where
  \<comment> \<open>the loop over \<^verbatim>\<open>l2C\<close>\<close>
  "td1Middle c1 [] l3C result = result"
| "td1Middle c1 (c2 # rest) l3C result =
     (let result1 = td1Inner c1 c2 l3C result
      in if isValidResult result1 then result1 else td1Middle c1 rest l3C result1)"

fun td1Outer :: "string list \<Rightarrow> string list \<Rightarrow> string list \<Rightarrow> UnifiedMrzResult option \<Rightarrow> UnifiedMrzResult option" where
  \<comment> \<open>the loop over \<^verbatim>\<open>l1C\<close>\<close>
  "td1Outer [] l2C l3C result = result"
| "td1Outer (c1 # rest) l2C l3C result =
     (let result1 = td1Middle c1 l2C l3C result
      in if isValidResult result1 then result1 else td1Outer rest l2C l3C result1)"

definition td1Attempt :: "string list \<Rightarrow> UnifiedMrzResult option \<Rightarrow> UnifiedMrzResult option" where
  "td1Attempt mrzLines result =
     (if (result = None \<or> map_option verification_status result = Some INVALID)
         \<and> length mrzLines \<ge> 3
      then (let last3 = sliceLast 3 mrzLines;
                l1C = getCandidates (last3 ! 0) 30;
                l2C = getCandidates (last3 ! 1) 30;
                l3C = getCandidates (last3 ! 2) 30
            in td1Outer l1C l2C l3C result)
      else result)"

definition resolveLines :: "string list \<Rightarrow> string + UnifiedMrzResult" where
  \<comment> \<open>the part of \<^verbatim>\<open>processMrz\<close> after normalization: the record, or the error text\<close>
  "resolveLines mrzLines =
     (if length mrzLines < 2
      then Inl ''Could not detect MRZ in the document. Please ensure the MRZ area is clearly visible and crisp.''
      else (let result = td3Attempt mrzLines None;
                result1 = td1Attempt mrzLines result
            in case result1 of
                 Some r \<Rightarrow> Inr r
               | None \<Rightarrow> Inl ''MRZ detected but parsing failed. Could not fit to TD-3 (44) or TD-1 (30) standards.''))"

definition processText :: "string \<Rightarrow> string + UnifiedMrzResult" where
  \<comment> \<open>\<^verbatim>\<open>processMrz\<close> from the recognized text on\<close>
  "processText text = resolveLines (map cleanMrzLine (extractMrzFromText text))"

section \<open>Notions of the specification used in the statements\<close>

fun beforeFirstSeparator :: "string \<Rightarrow> string" where
  \<comment> \<open>the text before the first occurrence of \<^verbatim>\<open><<\<close>, the whole text when there is none\<close>
  "beforeFirstSeparator (a # b # r) =
     (if a = CHR ''<'' \<and> b = CHR ''<'' then [] else a # beforeFirstSeparator (b # r))"
| "beforeFirstSeparator s = s"

fun afterFirstSeparator :: "string \<Rightarrow> string option" where
  \<comment> \<open>the text after the first occurrence of \<^verbatim>\<open><<\<close>, if there is one\<close>
  "afterFirstSeparator (a # b # r) =
     (if a = CHR ''<'' \<and> b = CHR ''<'' then Some r else afterFirstSeparator (b # r))"
| "afterFirstSeparator s = None"

definition namesFromZone :: "string \<Rightarrow> NameFields" where
  \<comment> \<open>surname and given names as read off a name zone: the text before the first
      separator, and the text between the first separator and the next one\<close>
  "namesFromZone zone =
     \<lparr> surname = trim (fillersToSpaces (beforeFirstSeparator zone)),
       given_names = (case afterFirstSeparator zone of
                        None \<Rightarrow> []
                      | Some rest \<Rightarrow> trim (fillersToSpaces (beforeFirstSeparator rest))) \<rparr>"

definition keepsLine :: "string \<Rightarrow> bool" where
  \<comment> \<open>the three conditions of the specification on a whitespace-stripped line\<close>
  "keepsLine cl =
     ((\<exists>c\<in>set cl. isMrzChar c)
      \<and> 20 \<le> length cl \<and> length cl \<le> 100
      \<and> (2 \<le> count_list cl CHR ''<'' \<or> length cl = 30 \<or> length cl = 36 \<or> length cl = 44))"

definition separatorSite :: "string \<Rightarrow> nat \<Rightarrow> bool" where
  \<comment> \<open>index \<open>i\<close> holds a \<^verbatim>\<open>C\<close> or \<^verbatim>\<open>L\<close> that follows a filler and is followed by a
      letter, the filler standing at the start of the line or after a character that is
      not a filler\<close>
  "separatorSite s i =
     (1 \<le> i \<and> Suc i < length s \<and> s ! (i - 1) = CHR ''<'' \<and> isCL (s ! i)
      \<and> isUpperAZ (s ! Suc i) \<and> (i = 1 \<or> s ! (i - 2) \<noteq> CHR ''<''))"

fun repairWithContext :: "char option \<Rightarrow> char option \<Rightarrow> string \<Rightarrow> string" where
  \<comment> \<open>the separator repair told character by character, \<open>p2\<close> and \<open>p1\<close> the two
      characters before the text (\<^term>\<open>None\<close> before the start of the line)\<close>
  "repairWithContext p2 p1 [] = []"
| "repairWithContext p2 p1 (x # xs) =
     (if isCL x \<and> p1 = Some CHR ''<'' \<and> p2 \<noteq> Some CHR ''<''
         \<and> (case xs of [] \<Rightarrow> False | y # _ \<Rightarrow> isUpperAZ y)
      then CHR ''<'' else x) # repairWithContext p1 (Some x) xs"

section \<open>Properties of the check digit\<close>

lemma charCode_less_256: "charCode c < 256"
  by (simp add: charCode_def)

lemma digitOf_10_digit: "isDigit c \<Longrightarrow> digitOf 10 c = Some (charCode c - 48)"
  by (auto simp: digitOf_def isDigit_def)

lemma digitOf_10_iff: "digitOf 10 c \<noteq> None \<longleftrightarrow> isDigit c"
  by (auto simp: digitOf_def isDigit_def isLowerAZ_def isUpperAZ_def Let_def split: option.splits)

lemma isDigit_not_space: "isDigit c \<Longrightarrow> \<not> isWhitespace c"
  by (auto simp: isDigit_def isWhitespace_def)

lemma isDigit_not_sign: "isDigit c \<Longrightarrow> c \<noteq> CHR ''-'' \<and> c \<noteq> CHR ''+''"
  by (auto simp: isDigit_def charCode_def)

lemma parseInt_single_digit:
  assumes "isDigit c"
  shows "parseInt [c] (Some 10) = Some (int (charCode c) - 48)"
proof -
  have ws: "dropWhile isWhitespace [c] = [c]"
    using assms by (simp add: isDigit_not_space)
  have sg: "c \<noteq> CHR ''-''" "c \<noteq> CHR ''+''"
    using assms by (simp_all add: isDigit_not_sign)
  have tw: "takeWhile (\<lambda>c. digitOf 10 c \<noteq> None) [c] = [c]"
    using assms by (simp add: digitOf_10_digit)
  have "48 \<le> charCode c"
    using assms by (simp add: isDigit_def)
  then show ?thesis
    using sg assms
    by (simp add: parseInt_def ws tw digitsValue_def digitOf_10_digit Let_def
        isDigit_not_space)
qed

lemma parseInt_single_nondigit:
  assumes "\<not> isDigit c"
  shows "parseInt [c] (Some 10) = None"
proof -
  have nd: "digitOf 10 c = None"
    using assms digitOf_10_iff by blast
  show ?thesis
    by (cases "isWhitespace c") (auto simp: parseInt_def Let_def nd)
qed

lemma getCharValue_cases:
  "getCharValue c = (if isDigit c then int (charCode c) - 48
                     else if isUpperAZ c then int (charCode c) - 55 else 0)"
  by (simp add: getCharValue_def parseInt_single_digit)

lemma checkDigitLoop_sum:
  "checkDigitLoop data i acc =
     acc + (\<Sum>k = i..<length data. getCharValue (data ! k) * weights ! (k mod 3))"
proof (induction data i acc rule: checkDigitLoop.induct)
  case (1 data i acc)
  show ?case
  proof (cases "i < length data")
    case True
    then show ?thesis
      using "1.IH" [OF True]
      by (subst checkDigitLoop.simps) (simp add: sum.atLeast_Suc_lessThan add.assoc)
  next
    case False
    then show ?thesis
      by (subst checkDigitLoop.simps) simp
  qed
qed

lemma calculateCheckDigit_sum:
  "calculateCheckDigit s = (\<Sum>i<length s. getCharValue (s ! i) * [7, 3, 1] ! (i mod 3)) mod 10"
  by (simp add: calculateCheckDigit_def checkDigitLoop_sum weights_def lessThan_atLeast0)

text \<open>
  Claim C1. For every string, \<open>calculateCheckDigit\<close> is the sum of the character values
  weighted by 7, 3, 1 in a cycle, modulo 10; the value of a decimal digit is the digit,
  the letters A to Z have the values 10 to 35, and the filler has the value 0.
\<close>

theorem calculateCheckDigit_weighted_sum:
  "calculateCheckDigit s = (\<Sum>i<length s. getCharValue (s ! i) * [7, 3, 1] ! (i mod 3)) mod 10
   \<and> map getCharValue ''0123456789'' = [0, 1, 2, 3, 4, 5, 6, 7, 8, 9]
   \<and> map getCharValue ''ABCDEFGHIJKLMNOPQRSTUVWXYZ'' =
       [10, 11, 12, 13, 14, 15, 16, 17, 18, 19, 20, 21, 22, 23, 24, 25, 26, 27, 28, 29,
        30, 31, 32, 33, 34, 35]
   \<and> getCharValue CHR ''<'' = 0"
proof -
  have "calculateCheckDigit s =
      (\<Sum>i<length s. getCharValue (s ! i) * [7, 3, 1] ! (i mod 3)) mod 10"
    by (rule calculateCheckDigit_sum)
  moreover have "map getCharValue ''0123456789'' = [0, 1, 2, 3, 4, 5, 6, 7, 8, 9]"
    by (simp add: getCharValue_cases isDigit_def charCode_def)
  moreover have "map getCharValue ''ABCDEFGHIJKLMNOPQRSTUVWXYZ'' =
       [10, 11, 12, 13, 14, 15, 16, 17, 18, 19, 20, 21, 22, 23, 24, 25, 26, 27, 28, 29,
        30, 31, 32, 33, 34, 35]"
    by (simp add: getCharValue_cases isDigit_def isUpperAZ_def charCode_def)
  moreover have "getCharValue CHR ''<'' = 0"
    by (simp add: getCharValue_cases isDigit_def isUpperAZ_def charCode_def)
  ultimately show ?thesis by blast
qed

section \<open>Properties of field verification and the decoders\<close>

lemma parseInt_undefined: "parseInt ''undefined'' (Some 10) = None"
  by (simp add: parseInt_def Let_def isWhitespace_def charCode_def digitOf_def isDigit_def
      isLowerAZ_def isUpperAZ_def)

text \<open>
  Claim C8. Whatever the field value, a check character that is not a decimal digit makes
  \<open>verifyField\<close> return the error text about the check digit's format, also when the
  computed digit is 0; the field passes (the result is \<open>null\<close>) exactly when the check
  character is a decimal digit and the computed 7-3-1 digit equals its value. A missing
  check character (\<open>undefined\<close>) is a failure as well.
\<close>

theorem verifyField_check_character:
  "(\<not> isDigit c \<longrightarrow>
      verifyField fieldValue (Some [c]) type line =
        Some (''Invalid check digit format for '' @ type @ '' (Line ''
              @ showNumber (Some line) @ ''): '' @ [quoteChar] @ [c] @ [quoteChar]))
   \<and> (verifyField fieldValue (Some [c]) type line = None
        \<longleftrightarrow> isDigit c \<and> calculateCheckDigit fieldValue = int (charCode c) - 48)
   \<and> verifyField fieldValue None type line \<noteq> None"
proof (cases "isDigit c")
  case True
  then show ?thesis
    by (auto simp: verifyField_def toStringJS_def parseInt_single_digit parseInt_undefined Let_def)
next
  case False
  then show ?thesis
    by (simp add: verifyField_def toStringJS_def parseInt_single_nondigit parseInt_undefined
        Let_def)
qed

theorem verifyField_check_character_witness:
  "\<not> isDigit CHR ''<'' \<and> calculateCheckDigit ''<<<'' = 0
   \<and> verifyField ''<<<'' (Some ''<'') ''Personal Number'' 2 =
        Some (''Invalid check digit format for Personal Number (Line 2): ''
              @ [quoteChar] @ ''<'' @ [quoteChar])
   \<and> verifyField ''A1234567<'' (Some ''6'') ''Document Number'' 2 = None"
  using verifyField_check_character [of "CHR ''<''" "''<<<''" "''Personal Number''" 2]
    verifyField_check_character [of "CHR ''6''" "''A1234567<''" "''Document Number''" 2]
    calculateCheckDigit_sum [of "''<<<''"] calculateCheckDigit_sum [of "''A1234567<''"]
  by (simp add: isDigit_def isUpperAZ_def charCode_def showNumber_def showNat.simps digitChar_def
      getCharValue_cases)

text \<open>
  Claim C7, at the input where the code departs from it. The two-digit year is parsed to
  a number and printed without its leading zero, so \<open>050101\<close> is rendered with the
  three-digit year \<open>205\<close> and not as \<open>2005-01-01\<close>; the year 99 is rendered as the claim
  says.
\<close>

theorem formatYMD_single_digit_year:
  "formatYMD ''050101'' = ''205-01-01'' \<and> formatYMD ''990101'' = ''1999-01-01''"
  by code_simp

theorem formatYMD_single_digit_year_witness:
  "length ''050101'' = 6 \<and> CHR ''<'' \<notin> set ''050101''
   \<and> parseInt (substring ''050101'' 0 2) None = Some 5
   \<and> formatYMD ''050101'' = ''205-01-01''"
proof -
  have "parseInt (substring ''050101'' 0 2) None = Some 5"
    by code_simp
  then show ?thesis
    using formatYMD_single_digit_year by simp
qed

text \<open>
  Claim C2. On two lines of 44 characters \<open>parseTD3\<close> returns a record, on three lines of
  30 characters \<open>parseTD1\<close> returns a record, and in each record the verification status
  is VALID if and only if the list of errors is empty.
\<close>

theorem verification_status_iff_no_errors:
  "(length l1 = 44 \<and> length l2 = 44 \<longrightarrow>
      (\<exists>r. parseTD3 [l1, l2] = Inr r
           \<and> (verification_status r = VALID \<longleftrightarrow> errors r = [])))
   \<and> (length m1 = 30 \<and> length m2 = 30 \<and> length m3 = 30 \<longrightarrow>
      (\<exists>r. parseTD1 [m1, m2, m3] = Inr r
           \<and> (verification_status r = VALID \<longleftrightarrow> errors r = [])))"
  by (simp add: parseTD3_def parseTD1_def Let_def)

theorem verification_status_iff_no_errors_witness:
  "(length ''P<KGZSURNAME<<NAME<<<<<<<<<<<<<<<<<<<<<<<<<<'' = 44
    \<and> length ''A1234567<6KGZ9801015M2801016<<<<<<<<<<<<<<06'' = 44
    \<and> (\<exists>r. parseTD3 [''P<KGZSURNAME<<NAME<<<<<<<<<<<<<<<<<<<<<<<<<<'',
                       ''A1234567<6KGZ9801015M2801016<<<<<<<<<<<<<<06''] = Inr r
           \<and> (verification_status r = VALID \<longleftrightarrow> errors r = [])))
   \<and> (length ''I<KGZID12345673<<<<<<<<<<<<<<<'' = 30
    \<and> length ''9809015M2801016KGZ<<<<<<<<<<<2'' = 30
    \<and> length ''DOE<<JOHN<<<<<<<<<<<<<<<<<<<<<'' = 30
    \<and> (\<exists>r. parseTD1 [''I<KGZID12345673<<<<<<<<<<<<<<<'',
                       ''9809015M2801016KGZ<<<<<<<<<<<2'',
                       ''DOE<<JOHN<<<<<<<<<<<<<<<<<<<<<''] = Inr r
           \<and> (verification_status r = VALID \<longleftrightarrow> errors r = [])))"
  using verification_status_iff_no_errors
    [of "''P<KGZSURNAME<<NAME<<<<<<<<<<<<<<<<<<<<<<<<<<''"
        "''A1234567<6KGZ9801015M2801016<<<<<<<<<<<<<<06''"
        "''I<KGZID12345673<<<<<<<<<<<<<<<''"
        "''9809015M2801016KGZ<<<<<<<<<<<2''"
        "''DOE<<JOHN<<<<<<<<<<<<<<<<<<<<<''"]
  by simp

section \<open>Properties of the format resolver\<close>

lemma tryParseCustom_two:
  "tryParseCustom [c1, c2] = Some r \<Longrightarrow> document_type r = PASSPORT"
  by (auto simp: tryParseCustom_def parseTD3_def Let_def split: if_splits)

lemma tryParseCustom_three:
  "tryParseCustom [c1, c2, c3] = Some r \<Longrightarrow> document_type r = ID_CARD"
  by (auto simp: tryParseCustom_def parseTD1_def Let_def split: if_splits)

lemma td1Inner_keeps:
  "\<exists>r. td1Inner c1 c2 l3C (Some r0) = Some r \<and> (r = r0 \<or> (document_type r = ID_CARD \<and> verification_status r = VALID))"
proof (induction l3C)
  case Nil
  show ?case by simp
next
  case (Cons c3 rest)
  show ?case
  proof (cases "isValidResult (tryParseCustom [c1, c2, c3])")
    case True
    then obtain r where r: "tryParseCustom [c1, c2, c3] = Some r" "verification_status r = VALID"
      by (auto simp: isValidResult_def split: option.splits)
    then have "(document_type r = ID_CARD \<and> verification_status r = VALID)"
      by (simp add: tryParseCustom_three)
    with True r show ?thesis by simp
  next
    case False
    with Cons.IH show ?thesis by simp
  qed
qed

lemma td1Middle_keeps:
  "\<exists>r. td1Middle c1 l2C l3C (Some r0) = Some r \<and> (r = r0 \<or> (document_type r = ID_CARD \<and> verification_status r = VALID))"
proof (induction l2C arbitrary: r0)
  case Nil
  show ?case by simp
next
  case (Cons c2 rest)
  obtain r1 where r1: "td1Inner c1 c2 l3C (Some r0) = Some r1" "r1 = r0 \<or> (document_type r1 = ID_CARD \<and> verification_status r1 = VALID)"
    using td1Inner_keeps by blast
  show ?case
  proof (cases "isValidResult (Some r1)")
    case True
    with r1 show ?thesis by simp
  next
    case False
    then have "\<not> (document_type r1 = ID_CARD \<and> verification_status r1 = VALID)"
      by (simp add: isValidResult_def)
    with r1 have "r1 = r0" by blast
    with Cons.IH [of r0] r1 False show ?thesis by simp
  qed
qed

lemma td1Outer_keeps:
  "\<exists>r. td1Outer l1C l2C l3C (Some r0) = Some r \<and> (r = r0 \<or> (document_type r = ID_CARD \<and> verification_status r = VALID))"
proof (induction l1C arbitrary: r0)
  case Nil
  show ?case by simp
next
  case (Cons c1 rest)
  obtain r1 where r1: "td1Middle c1 l2C l3C (Some r0) = Some r1" "r1 = r0 \<or> (document_type r1 = ID_CARD \<and> verification_status r1 = VALID)"
    using td1Middle_keeps by blast
  show ?case
  proof (cases "isValidResult (Some r1)")
    case True
    with r1 show ?thesis by simp
  next
    case False
    then have "\<not> (document_type r1 = ID_CARD \<and> verification_status r1 = VALID)"
      by (simp add: isValidResult_def)
    with r1 have "r1 = r0" by blast
    with Cons.IH [of r0] r1 False show ?thesis by simp
  qed
qed

lemma td1Attempt_keeps:
  "\<exists>r. td1Attempt mrzLines (Some r0) = Some r \<and> (r = r0 \<or> (document_type r = ID_CARD \<and> verification_status r = VALID))"
  using td1Outer_keeps by (simp add: td1Attempt_def Let_def)

lemma td3Inner_passport:
  "td3Inner c1 l2C result = Some r \<Longrightarrow> result = Some r \<or> document_type r = PASSPORT"
proof (induction l2C arbitrary: result)
  case Nil
  then show ?case by simp
next
  case (Cons c2 rest)
  show ?case
  proof (cases "isValidResult (tryParseCustom [c1, c2])")
    case True
    with Cons.prems show ?thesis
      by (simp add: tryParseCustom_two)
  next
    case False
    with Cons.prems have
      "td3Inner c1 rest (if tryParseCustom [c1, c2] \<noteq> None then tryParseCustom [c1, c2] else result) = Some r"
      by (simp add: Let_def)
    from Cons.IH [OF this] show ?thesis
      by (auto simp: tryParseCustom_two split: if_splits)
  qed
qed

lemma td3Outer_passport:
  "td3Outer l1C l2C result = Some r \<Longrightarrow> result = Some r \<or> document_type r = PASSPORT"
proof (induction l1C arbitrary: result)
  case Nil
  then show ?case by simp
next
  case (Cons c1 rest)
  show ?case
  proof (cases "isValidResult (td3Inner c1 l2C result)")
    case True
    with Cons.prems show ?thesis
      by (simp add: td3Inner_passport)
  next
    case False
    with Cons.prems have "td3Outer rest l2C (td3Inner c1 l2C result) = Some r"
      by simp
    from Cons.IH [OF this] show ?thesis
      using td3Inner_passport by blast
  qed
qed

lemma td3Attempt_passport:
  "td3Attempt mrzLines None = Some r \<Longrightarrow> document_type r = PASSPORT \<and> length mrzLines \<ge> 2"
  using td3Outer_passport [of _ _ None r]
  by (auto simp: td3Attempt_def Let_def split: if_splits)

text \<open>
  Claim C10. When the TD3 attempt has left a record, the TD1 attempt returns either that
  same record or a TD1 record whose verdict is VALID, and this is the final result of the
  resolver: an INVALID TD1 decode never replaces the TD3 result, so the final result is
  never an INVALID TD1 record when a TD3 pair decoded.
\<close>

theorem td1_replaces_only_by_valid:
  assumes "td3Attempt mrzLines None = Some r0"
  shows "\<exists>r. td1Attempt mrzLines (Some r0) = Some r \<and> resolveLines mrzLines = Inr r
            \<and> (r = r0 \<or> (document_type r = ID_CARD \<and> verification_status r = VALID))
            \<and> \<not> (document_type r = ID_CARD \<and> verification_status r = INVALID)"
proof -
  obtain r where r: "td1Attempt mrzLines (Some r0) = Some r" "r = r0 \<or> (document_type r = ID_CARD \<and> verification_status r = VALID)"
    using td1Attempt_keeps by blast
  have p: "document_type r0 = PASSPORT" "length mrzLines \<ge> 2"
    using td3Attempt_passport [OF assms] by simp_all
  have "resolveLines mrzLines = Inr r"
    using assms r(1) p(2) by (simp add: resolveLines_def Let_def)
  moreover have "\<not> (document_type r = ID_CARD \<and> verification_status r = INVALID)"
    using r(2) p(1) by auto
  ultimately show ?thesis
    using r by auto
qed


lemma verifyField_nondigit:
  "\<not> isDigit c \<Longrightarrow>
     verifyField fieldValue (Some [c]) type line =
       Some (''Invalid check digit format for '' @ type @ '' (Line ''
             @ showNumber (Some line) @ ''): '' @ [quoteChar] @ [c] @ [quoteChar])"
  by (simp add: verifyField_def toStringJS_def parseInt_single_nondigit Let_def)

lemma pushError_nonempty: "errs \<noteq> [] \<Longrightarrow> pushError errs e \<noteq> []"
  by (simp add: pushError_def split: option.splits)

lemma td3Errors_bad_check:
  assumes "charAt l2 9 = Some [c]" "\<not> isDigit c"
  shows "td3Errors l2 \<noteq> []"
proof -
  have "pushError [] (verifyField (substring l2 0 9) (charAt l2 9) ''Document Number'' 2) \<noteq> []"
    using assms by (simp add: verifyField_nondigit pushError_def)
  then show ?thesis
    by (simp add: td3Errors_def Let_def pushError_nonempty)
qed

lemma tryParseCustom_td3:
  assumes "length c1 = 44" "length c2 = 44"
  shows "\<exists>r. tryParseCustom [c1, c2] = Some r
            \<and> document_number r = removeFillers (substring c2 0 9)
            \<and> verification_status r = (if td3Errors c2 = [] then VALID else INVALID)"
  using assms by (simp add: tryParseCustom_def parseTD3_def Let_def)

lemma td3Attempt_example: "td3Attempt [''I<KGZID12345673<<<<<<<<<<<<<<<'', ''P<KGZSURNAME<<NAME<<<<<<<<<<<<<<<<<<<<<<<<<<'', ''A1234567<6KGZ9801015M2801016<<<<<<<<<<<<<<07''] None \<noteq> None"
proof -
  obtain r where "tryParseCustom [''P<KGZSURNAME<<NAME<<<<<<<<<<<<<<<<<<<<<<<<<<'', ''A1234567<6KGZ9801015M2801016<<<<<<<<<<<<<<07''] = Some r"
    using tryParseCustom_td3 [of "''P<KGZSURNAME<<NAME<<<<<<<<<<<<<<<<<<<<<<<<<<''" "''A1234567<6KGZ9801015M2801016<<<<<<<<<<<<<<07''"]
    by auto
  then show ?thesis
    by (simp add: td3Attempt_def sliceLast_def getCandidates_def Let_def)
qed

theorem td1_replaces_only_by_valid_witness:
  "\<exists>r0. td3Attempt [''I<KGZID12345673<<<<<<<<<<<<<<<'',
                      ''P<KGZSURNAME<<NAME<<<<<<<<<<<<<<<<<<<<<<<<<<'',
                      ''A1234567<6KGZ9801015M2801016<<<<<<<<<<<<<<07''] None = Some r0
      \<and> (\<exists>r. resolveLines [''I<KGZID12345673<<<<<<<<<<<<<<<'',
                      ''P<KGZSURNAME<<NAME<<<<<<<<<<<<<<<<<<<<<<<<<<'',
                      ''A1234567<6KGZ9801015M2801016<<<<<<<<<<<<<<07''] = Inr r
            \<and> (r = r0 \<or> (document_type r = ID_CARD \<and> verification_status r = VALID)))"
proof -
  let ?L = "[''I<KGZID12345673<<<<<<<<<<<<<<<'',
             ''P<KGZSURNAME<<NAME<<<<<<<<<<<<<<<<<<<<<<<<<<'',
             ''A1234567<6KGZ9801015M2801016<<<<<<<<<<<<<<07'']"
  obtain r0 where r0: "td3Attempt ?L None = Some r0"
    using td3Attempt_example by blast
  from td1_replaces_only_by_valid [OF r0] r0 show ?thesis
    by blast
qed

text \<open>
  Claim C3, at an input where the code departs from it. The second of the last two lines
  has 45 characters, so it has two candidate windows; with either window the pair decodes
  and is INVALID (the check character of the document number is a filler). The first pair
  that decodes is the one with the first window, but the TD3 attempt returns the record
  of the pair with the second window: every later INVALID decode overwrites the fallback,
  while the TD1 loop keeps its first one.
\<close>

theorem td3Attempt_keeps_last_invalid:
  "getCandidates ''XA1234567<<KGZ9801015M2801016<<<<<<<<<<<<<<06'' 44 =
     [''XA1234567<<KGZ9801015M2801016<<<<<<<<<<<<<<0'',
      ''A1234567<<KGZ9801015M2801016<<<<<<<<<<<<<<06'']
   \<and> map_option verification_status
        (tryParseCustom [''P<KGZSURNAME<<NAME<<<<<<<<<<<<<<<<<<<<<<<<<<'',
                         ''XA1234567<<KGZ9801015M2801016<<<<<<<<<<<<<<0'']) = Some INVALID
   \<and> map_option verification_status
        (tryParseCustom [''P<KGZSURNAME<<NAME<<<<<<<<<<<<<<<<<<<<<<<<<<'',
                         ''A1234567<<KGZ9801015M2801016<<<<<<<<<<<<<<06'']) = Some INVALID
   \<and> td3Attempt [''P<KGZSURNAME<<NAME<<<<<<<<<<<<<<<<<<<<<<<<<<'',
                  ''XA1234567<<KGZ9801015M2801016<<<<<<<<<<<<<<06''] None =
       tryParseCustom [''P<KGZSURNAME<<NAME<<<<<<<<<<<<<<<<<<<<<<<<<<'',
                       ''A1234567<<KGZ9801015M2801016<<<<<<<<<<<<<<06'']
   \<and> map_option document_number
        (tryParseCustom [''P<KGZSURNAME<<NAME<<<<<<<<<<<<<<<<<<<<<<<<<<'',
                         ''XA1234567<<KGZ9801015M2801016<<<<<<<<<<<<<<0'']) = Some ''XA1234567''
   \<and> map_option document_number
        (td3Attempt [''P<KGZSURNAME<<NAME<<<<<<<<<<<<<<<<<<<<<<<<<<'',
                     ''XA1234567<<KGZ9801015M2801016<<<<<<<<<<<<<<06''] None) = Some ''A1234567''"
proof -
  let ?l1 = "''P<KGZSURNAME<<NAME<<<<<<<<<<<<<<<<<<<<<<<<<<''"
  let ?x = "''XA1234567<<KGZ9801015M2801016<<<<<<<<<<<<<<06''"
  let ?w1 = "''XA1234567<<KGZ9801015M2801016<<<<<<<<<<<<<<0''"
  let ?w2 = "''A1234567<<KGZ9801015M2801016<<<<<<<<<<<<<<06''"
  have nd: "\<not> isDigit CHR ''<''"
    by (simp add: isDigit_def charCode_def)
  have c2: "getCandidates ?x 44 = [?w1, ?w2]"
    by (simp add: getCandidates_def substring_def upt_rec)
  have c1: "getCandidates ?l1 44 = [?l1]"
    by (simp add: getCandidates_def)
  have e1: "td3Errors ?w1 \<noteq> []"
    by (rule td3Errors_bad_check [OF _ nd]) (simp add: charAt_def)
  have e2: "td3Errors ?w2 \<noteq> []"
    by (rule td3Errors_bad_check [OF _ nd]) (simp add: charAt_def)
  obtain r1 where r1: "tryParseCustom [?l1, ?w1] = Some r1"
      "document_number r1 = removeFillers (substring ?w1 0 9)"
      "verification_status r1 = INVALID"
    using tryParseCustom_td3 [of ?l1 ?w1] e1 by auto
  obtain r2 where r2: "tryParseCustom [?l1, ?w2] = Some r2"
      "document_number r2 = removeFillers (substring ?w2 0 9)"
      "verification_status r2 = INVALID"
    using tryParseCustom_td3 [of ?l1 ?w2] e2 by auto
  have att: "td3Attempt [?l1, ?x] None = Some r2"
    using r1(1,3) r2(1,3)
    by (simp add: td3Attempt_def sliceLast_def c1 c2 isValidResult_def Let_def)
  have d1: "document_number r1 = ''XA1234567''"
    by (simp add: r1(2) removeFillers_def substring_def)
  have d2: "document_number r2 = ''A1234567''"
    by (simp add: r2(2) removeFillers_def substring_def)
  show ?thesis
    using c2 att r1(1,3) r2(1,3) d1 d2 by simp
qed

section \<open>Properties of name splitting\<close>

lemma separator_decomposition:
  "afterFirstSeparator s = Some r \<Longrightarrow> s = beforeFirstSeparator s @ ''<<'' @ r"
  by (induction s rule: beforeFirstSeparator.induct) (auto split: if_splits)

lemma no_separator_whole:
  "afterFirstSeparator s = None \<Longrightarrow> beforeFirstSeparator s = s"
  by (induction s rule: beforeFirstSeparator.induct) (auto split: if_splits)

lemma beforeFirstSeparator_Cons:
  "beforeFirstSeparator (b # r) =
     (if b = CHR ''<'' \<and> r \<noteq> [] \<and> hd r = CHR ''<'' then [] else b # beforeFirstSeparator r)"
  by (cases r) auto

lemma afterFirstSeparator_Cons:
  "afterFirstSeparator (b # r) =
     (if b = CHR ''<'' \<and> r \<noteq> [] \<and> hd r = CHR ''<'' then Some (tl r) else afterFirstSeparator r)"
  by (cases r) auto

lemma separator_is_first:
  "afterFirstSeparator s = Some r \<Longrightarrow> \<not> sublist ''<<'' (beforeFirstSeparator s @ ''<'')"
proof (induction s)
  case Nil
  then show ?case by simp
next
  case (Cons b t)
  then show ?case
    by (cases t)
      (auto simp: beforeFirstSeparator_Cons afterFirstSeparator_Cons sublist_Cons_right
        prefix_Cons simp del: beforeFirstSeparator.simps(1) afterFirstSeparator.simps(1)
        split: if_splits)
qed

lemma no_separator_none:
  "afterFirstSeparator s = None \<Longrightarrow> \<not> sublist ''<<'' s"
proof (induction s)
  case Nil
  then show ?case by simp
next
  case (Cons b t)
  then show ?case
    by (cases t)
      (auto simp: afterFirstSeparator_Cons sublist_Cons_right prefix_Cons
        simp del: afterFirstSeparator.simps(1) split: if_splits)
qed

lemma splitLoop_parts:
  "splitLoop cur s =
     (cur @ beforeFirstSeparator s)
       # (case afterFirstSeparator s of None \<Rightarrow> [] | Some r \<Rightarrow> splitLoop [] r)"
  by (induction cur s rule: splitLoop.induct) auto

lemma splitLoop_nonempty: "splitLoop cur s \<noteq> []"
  by (subst splitLoop_parts) simp

lemma splitSeparator_first: "splitSeparator s ! 0 = beforeFirstSeparator s"
  by (simp add: splitSeparator_def splitLoop_parts [of "[]" s])

lemma splitSeparator_length:
  "Suc 0 < length (splitSeparator s) \<longleftrightarrow> afterFirstSeparator s \<noteq> None"
  using splitLoop_nonempty
  by (auto simp: splitSeparator_def splitLoop_parts [of "[]" s] split: option.splits)

lemma splitSeparator_second:
  "afterFirstSeparator s = Some r \<Longrightarrow> splitSeparator s ! Suc 0 = beforeFirstSeparator r"
  by (simp add: splitSeparator_def splitLoop_parts [of "[]" s] splitLoop_parts [of "[]" r])

lemma trim_append_whitespace:
  assumes "\<forall>c\<in>set ws. isWhitespace c"
  shows "trim (x @ ws) = trim x"
proof (cases "\<forall>c\<in>set x. isWhitespace c")
  case True
  then have "dropWhile isWhitespace (x @ ws) = []" "dropWhile isWhitespace x = []"
    using assms by auto
  then show ?thesis by (simp only: trim_def rev.simps dropWhile.simps)
next
  case False
  then have "dropWhile isWhitespace (x @ ws) = dropWhile isWhitespace x @ ws"
    by (auto simp: dropWhile_append1)
  moreover have "dropWhile isWhitespace (rev ws @ rev (dropWhile isWhitespace x)) =
      dropWhile isWhitespace (rev (dropWhile isWhitespace x))"
    by (rule dropWhile_append2) (use assms in auto)
  ultimately show ?thesis by (simp add: trim_def)
qed

lemma given_names_whole_rest:
  assumes "afterFirstSeparator rest = Some rest2" "set rest2 \<subseteq> {CHR ''<''}"
  shows "trim (fillersToSpaces (beforeFirstSeparator rest)) = trim (fillersToSpaces rest)"
proof -
  have "rest = beforeFirstSeparator rest @ ''<<'' @ rest2"
    using assms(1) by (rule separator_decomposition)
  then have "fillersToSpaces rest =
      fillersToSpaces (beforeFirstSeparator rest @ ''<<'' @ rest2)"
    by (rule arg_cong)
  also have "\<dots> = fillersToSpaces (beforeFirstSeparator rest) @ fillersToSpaces (''<<'' @ rest2)"
    by (simp add: fillersToSpaces_def)
  finally have "fillersToSpaces rest =
      fillersToSpaces (beforeFirstSeparator rest) @ fillersToSpaces (''<<'' @ rest2)" .
  moreover have "\<forall>c\<in>set (fillersToSpaces (''<<'' @ rest2)). isWhitespace c"
    using assms(2) by (auto simp: fillersToSpaces_def isWhitespace_def charCode_def)
  ultimately show ?thesis
    by (simp add: trim_append_whitespace)
qed

lemma names_of_split:
  "\<lparr> surname = trim (fillersToSpaces (splitSeparator zone ! 0)),
     given_names = (if length (splitSeparator zone) > 1
                    then trim (fillersToSpaces (splitSeparator zone ! 1)) else []) \<rparr>
   = namesFromZone zone"
  using splitSeparator_length [of zone]
  by (auto simp: namesFromZone_def splitSeparator_first splitSeparator_second
      split: option.splits)

lemma parseTD3_names:
  "\<exists>r. parseTD3 [l1, l2] = Inr r \<and> names r = namesFromZone (substring l1 5 44)"
  unfolding parseTD3_def Let_def names_of_split by simp

lemma parseTD1_names:
  "\<exists>r. parseTD1 [m1, m2, m3] = Inr r \<and> names r = namesFromZone (dropTrailingFillers m3)"
  unfolding parseTD1_def Let_def names_of_split by simp

text \<open>
  Claim C9, amended. In both decoders the surname is the text of the name zone before the
  first \<open><<\<close>, and the given names are the text between the first \<open><<\<close> and the next
  \<open><<\<close> after it (to the end of the zone when there is no further one), fillers
  rendered as spaces and the result trimmed; the name zone is columns 5 to 43 of line 1
  for TD3 and line 3 without its trailing fillers for TD1. Text after a second \<open><<\<close>
  is not part of the given names. When only fillers follow the second \<open><<\<close>, or when
  there is none, this is the entire text after the first \<open><<\<close>, as the claim says.
\<close>

theorem names_split_on_separators:
  "(\<exists>r. parseTD3 [l1, l2] = Inr r \<and> names r = namesFromZone (substring l1 5 44))
   \<and> (\<exists>r. parseTD1 [m1, m2, m3] = Inr r \<and> names r = namesFromZone (dropTrailingFillers m3))
   \<and> (afterFirstSeparator rest = Some rest2 \<and> set rest2 \<subseteq> {CHR ''<''} \<longrightarrow>
        trim (fillersToSpaces (beforeFirstSeparator rest)) = trim (fillersToSpaces rest))
   \<and> (afterFirstSeparator rest = None \<longrightarrow> beforeFirstSeparator rest = rest)"
  using parseTD3_names parseTD1_names given_names_whole_rest no_separator_whole
  by blast

theorem names_split_on_separators_witness:
  "afterFirstSeparator ''JOHN<<<<'' = Some ''<<'' \<and> set ''<<'' \<subseteq> {CHR ''<''}
   \<and> trim (fillersToSpaces (beforeFirstSeparator ''JOHN<<<<'')) =
       trim (fillersToSpaces ''JOHN<<<<'')
   \<and> afterFirstSeparator ''JOHN'' = None \<and> beforeFirstSeparator ''JOHN'' = ''JOHN''
   \<and> (\<exists>r. parseTD3 [''P<KGZDOE<<JOHN<<SMITH<<<<<<<<<<<<<<<<<<<<<<<'',
                      ''A1234567<6KGZ9801015M2801016<<<<<<<<<<<<<<06''] = Inr r
          \<and> names r = namesFromZone ''DOE<<JOHN<<SMITH<<<<<<<<<<<<<<<<<<<<<<<'')
   \<and> (\<exists>r. parseTD1 [''I<KGZID12345673<<<<<<<<<<<<<<<'',
                      ''9801015M2801016KGZ<<<<<<<<<<<2'',
                      ''DOE<<JOHN<<<<<<<<<<<<<<<<<<<<<''] = Inr r
          \<and> names r = namesFromZone ''DOE<<JOHN'')"
  using names_split_on_separators
      [of "''P<KGZDOE<<JOHN<<SMITH<<<<<<<<<<<<<<<<<<<<<<<''"
          "''A1234567<6KGZ9801015M2801016<<<<<<<<<<<<<<06''"
          "''I<KGZID12345673<<<<<<<<<<<<<<<''" "''9801015M2801016KGZ<<<<<<<<<<<2''"
          "''DOE<<JOHN<<<<<<<<<<<<<<<<<<<<<''" "''JOHN<<<<''" "''<<''"]
    names_split_on_separators [of _ _ _ _ _ "''JOHN''"]
  by (simp add: substring_def dropTrailingFillers_def)

text \<open>
  Claim C9 as stated fails where the text after the first separator contains a further
  \<open><<\<close> followed by more text: for the name zone \<open>DOE<<JOHN<<SMITH<<<\<close>\<dots> the decoder
  gives the given names \<open>JOHN\<close>, while the entire text after the first separator,
  fillers as spaces and trimmed, is \<open>JOHN  SMITH\<close>.
\<close>

theorem given_names_stop_at_second_separator:
  "map_sum id (given_names \<circ> names)
     (parseTD3 [''P<KGZDOE<<JOHN<<SMITH<<<<<<<<<<<<<<<<<<<<<<<'',
                ''A1234567<6KGZ9801015M2801016<<<<<<<<<<<<<<06'']) = Inr ''JOHN''
   \<and> map_option (trim \<circ> fillersToSpaces)
        (afterFirstSeparator (substring ''P<KGZDOE<<JOHN<<SMITH<<<<<<<<<<<<<<<<<<<<<<<'' 5 44))
       = Some ''JOHN  SMITH''"
proof -
  have s: "substring ''P<KGZDOE<<JOHN<<SMITH<<<<<<<<<<<<<<<<<<<<<<<'' 5 44 = ''DOE<<JOHN<<SMITH<<<<<<<<<<<<<<<<<<<<<<<''"
    by (simp add: substring_def)
  have p: "splitSeparator ''DOE<<JOHN<<SMITH<<<<<<<<<<<<<<<<<<<<<<<'' ! Suc 0 = ''JOHN''"
     "Suc 0 < length (splitSeparator ''DOE<<JOHN<<SMITH<<<<<<<<<<<<<<<<<<<<<<<'')"
    by (simp_all add: splitSeparator_def)
  have w: "\<not> isWhitespace CHR ''J''" "\<not> isWhitespace CHR ''N''" "\<not> isWhitespace CHR ''H''"
    "isWhitespace CHR '' ''"
    by (simp_all add: isWhitespace_def charCode_def)
  have t: "trim (fillersToSpaces ''JOHN'') = ''JOHN''"
    by (simp add: trim_def fillersToSpaces_def w)
  have a: "afterFirstSeparator ''DOE<<JOHN<<SMITH<<<<<<<<<<<<<<<<<<<<<<<'' = Some ''JOHN<<SMITH<<<<<<<<<<<<<<<<<<<<<<<''"
    by simp
  have u: "trim (fillersToSpaces ''JOHN<<SMITH<<<<<<<<<<<<<<<<<<<<<<<'') = ''JOHN  SMITH''"
    by (simp add: trim_def fillersToSpaces_def w)
  show ?thesis
    by (simp add: parseTD3_def Let_def s p t a u)
qed

section \<open>Properties of the line extractor\<close>

lemma filter_dropWhile_whitespace:
  "filter (\<lambda>c. \<not> isWhitespace c) (dropWhile isWhitespace xs) = filter (\<lambda>c. \<not> isWhitespace c) xs"
  by (induction xs) auto

lemma stripWhitespace_trim: "stripWhitespace (trim line) = stripWhitespace line"
proof -
  have "stripWhitespace (trim line) =
      rev (filter (\<lambda>c. \<not> isWhitespace c) (dropWhile isWhitespace (rev (dropWhile isWhitespace line))))"
    by (simp add: stripWhitespace_def trim_def rev_filter)
  also have "\<dots> = rev (filter (\<lambda>c. \<not> isWhitespace c) (rev (dropWhile isWhitespace line)))"
    by (simp only: filter_dropWhile_whitespace)
  also have "\<dots> = filter (\<lambda>c. \<not> isWhitespace c) (dropWhile isWhitespace line)"
    by (simp add: rev_filter)
  also have "\<dots> = stripWhitespace line"
    by (simp add: filter_dropWhile_whitespace stripWhitespace_def)
  finally show ?thesis .
qed

lemma chevron_count: "length (filter (\<lambda>c. c = x) cl) = count_list cl x"
  by (induction cl) auto

lemma looksLikeMrz_keepsLine: "looksLikeMrz line = keepsLine (stripWhitespace line)"
  by (simp add: looksLikeMrz_def keepsLine_def Let_def list_ex_iff chevron_count)

lemma extract_as_filter:
  "extractMrzFromText text =
     map toUpperCase (filter keepsLine (map stripWhitespace (splitLines text)))"
proof -
  have "map (\<lambda>l. toUpperCase (stripWhitespace l)) (filter looksLikeMrz (map trim ls)) =
      map toUpperCase (filter keepsLine (map stripWhitespace ls))" for ls
    by (induction ls) (simp_all add: looksLikeMrz_keepsLine stripWhitespace_trim)
  then show ?thesis
    by (simp add: extractMrzFromText_def Let_def)
qed

text \<open>
  Claim C4. The extractor splits the text at line feeds and returns, upper-cased, exactly
  the whitespace-stripped lines that (a) contain a character of \<open>A-Z\<close>, \<open>0-9\<close>, \<open><\<close>,
  (b) have a length from 20 to 100 and (c) contain two fillers or more or have the length
  30, 36 or 44 (trimming first changes nothing, the whitespace being stripped anyway). The
  kept lines stand in their original order, each once: the output is a subsequence of the
  stripped, upper-cased lines of the text.
\<close>

theorem extractMrzFromText_keeps_exactly:
  "extractMrzFromText text =
     map toUpperCase (filter keepsLine (map stripWhitespace (splitLines text)))
   \<and> subseq (extractMrzFromText text)
        (map (\<lambda>l. toUpperCase (stripWhitespace l)) (splitLines text))"
proof -
  have "subseq (map toUpperCase (filter keepsLine (map stripWhitespace (splitLines text))))
      (map toUpperCase (map stripWhitespace (splitLines text)))"
    by (intro subseq_map subseq_filter_left)
  then show ?thesis
    by (simp add: extract_as_filter comp_def)
qed


theorem extractMrzFromText_keeps_exactly_witness:
  "extractMrzFromText
     (''  ab c '' @ [CHR 0x0A] @ '' p<kgz DOE<<JOHN<<<<<<<< '' @ [CHR 0x0D, CHR 0x0A]
      @ ''abcdefghijklmnopqrstuvwxyzabcd'' @ [CHR 0x0A]
      @ ''12345678901234567890123456789'' @ [CHR 0x0A]
      @ ''123456789012345678901234567890'')
   = [''P<KGZDOE<<JOHN<<<<<<<<'', ''123456789012345678901234567890'']"
proof -
  have "map toUpperCase (filter keepsLine (map stripWhitespace (splitLines
     (''  ab c '' @ [CHR 0x0A] @ '' p<kgz DOE<<JOHN<<<<<<<< '' @ [CHR 0x0D, CHR 0x0A]
      @ ''abcdefghijklmnopqrstuvwxyzabcd'' @ [CHR 0x0A]
      @ ''12345678901234567890123456789'' @ [CHR 0x0A]
      @ ''123456789012345678901234567890''))))
   = [''P<KGZDOE<<JOHN<<<<<<<<'', ''123456789012345678901234567890'']"
    by code_simp
  then show ?thesis
    using extractMrzFromText_keeps_exactly by simp
qed

section \<open>Properties of the separator repair\<close>

lemma isCL_not_filler: "isCL c \<Longrightarrow> c \<noteq> CHR ''<''"
  by (auto simp: isCL_def)

lemma isUpperAZ_not_filler: "isUpperAZ c \<Longrightarrow> c \<noteq> CHR ''<''"
  by (auto simp: isUpperAZ_def charCode_def)

lemma isCL_upper: "isCL c \<Longrightarrow> isUpperAZ c"
  by (auto simp: isCL_def isUpperAZ_def charCode_def)

text \<open>How the character-by-character repair depends on the two characters before.\<close>

lemma repairWithContext_two:
  "repairWithContext p2 p1 (x # y # r) =
     (if isCL x \<and> p1 = Some CHR ''<'' \<and> p2 \<noteq> Some CHR ''<'' \<and> isUpperAZ y
      then CHR ''<'' else x)
     # (if isCL y \<and> x = CHR ''<'' \<and> p1 \<noteq> Some CHR ''<''
           \<and> (case r of [] \<Rightarrow> False | z # _ \<Rightarrow> isUpperAZ z)
        then CHR ''<'' else y)
     # repairWithContext (Some x) (Some y) r"
  by simp

lemma repairWithContext_after_filler:
  "repairWithContext (Some CHR ''<'') p1 s = repairWithContext q2 p1 s"
  if "p1 \<noteq> Some CHR ''<'' \<or> q2 = Some CHR ''<'' \<or> \<not> startsCLLetter s"
  using that by (cases s) (auto simp: startsCLLetter_def split: list.splits)

lemma sepScan_False:
  "sepScan False s = repairWithContext (Some CHR ''<'') (Some CHR ''<'') s"
proof (induction "length s" arbitrary: s rule: less_induct)
  case less
  show ?case
  proof (cases s)
    case Nil
    then show ?thesis by (simp add: sepScan.simps)
  next
    case (Cons a t)
    show ?thesis
    proof (cases "a \<noteq> CHR ''<'' \<and> startsFillerCLLetter t")
      case True
      then obtain c d r where t: "t = CHR ''<'' # c # d # r" "isCL c" "isUpperAZ d"
        by (auto simp: startsFillerCLLetter_def split: list.splits)
      have "sepScan False s = a # ''<<'' @ sepScan False (d # r)"
        using Cons True t by (subst sepScan.simps) simp
      also have "sepScan False (d # r) = repairWithContext (Some CHR ''<'') (Some CHR ''<'') (d # r)"
        using less [of "d # r"] Cons t by simp
      also have "\<dots> = repairWithContext (Some CHR ''<'') (Some c) (d # r)"
        using t isUpperAZ_not_filler [of d] isCL_not_filler [of c]
        by (cases r) auto
      finally show ?thesis
        using Cons True t isCL_not_filler [of c] by simp
    next
      case False
      have "sepScan False s = a # sepScan False t"
        using Cons False by (subst sepScan.simps) auto
      also have "sepScan False t = repairWithContext (Some CHR ''<'') (Some CHR ''<'') t"
        using less [of t] Cons by simp
      also have "\<dots> = repairWithContext (Some CHR ''<'') (Some a) t"
        using False
        by (cases t) (auto simp: startsFillerCLLetter_def split: list.splits)
      finally show ?thesis
        using Cons by simp
    qed
  qed
qed

lemma sepScan_True:
  "sepScan True s = repairWithContext None None s"
proof (cases s)
  case Nil
  then show ?thesis by (simp add: sepScan.simps)
next
  case (Cons a t)
  show ?thesis
  proof (cases "a = CHR ''<'' \<and> startsCLLetter t")
    case True
    then obtain c d r where t: "t = c # d # r" "isCL c" "isUpperAZ d"
      by (auto simp: startsCLLetter_def split: list.splits)
    have "sepScan True s = ''<<'' @ sepScan False (d # r)"
      using Cons True t by (subst sepScan.simps) simp
    also have "sepScan False (d # r) = repairWithContext (Some CHR ''<'') (Some CHR ''<'') (d # r)"
      by (rule sepScan_False)
    also have "\<dots> = repairWithContext (Some CHR ''<'') (Some c) (d # r)"
      using t isUpperAZ_not_filler [of d] isCL_not_filler [of c]
      by (cases r) auto
    finally show ?thesis
      using Cons True t by simp
  next
    case False
    note nf = False
    show ?thesis
    proof (cases "a \<noteq> CHR ''<'' \<and> startsFillerCLLetter t")
      case True
      then obtain c d r where t: "t = CHR ''<'' # c # d # r" "isCL c" "isUpperAZ d"
        by (auto simp: startsFillerCLLetter_def split: list.splits)
      have "sepScan True s = a # ''<<'' @ sepScan False (d # r)"
        using Cons True t by (subst sepScan.simps) simp
      also have "sepScan False (d # r) = repairWithContext (Some CHR ''<'') (Some CHR ''<'') (d # r)"
        by (rule sepScan_False)
      also have "\<dots> = repairWithContext (Some CHR ''<'') (Some c) (d # r)"
        using t isUpperAZ_not_filler [of d] isCL_not_filler [of c]
        by (cases r) auto
      finally show ?thesis
        using Cons True t isCL_not_filler [of c] by simp
    next
      case False
      have "sepScan True s = a # sepScan False t"
        using Cons False nf by (subst sepScan.simps) auto
      also have "sepScan False t = repairWithContext (Some CHR ''<'') (Some CHR ''<'') t"
        by (rule sepScan_False)
      also have "\<dots> = repairWithContext None (Some a) t"
        using False nf
        by (cases t) (auto simp: startsFillerCLLetter_def startsCLLetter_def split: list.splits)
      finally show ?thesis
        using Cons by simp
    qed
  qed
qed

lemma length_repairWithContext [simp]: "length (repairWithContext p2 p1 s) = length s"
  by (induction s arbitrary: p2 p1) auto

lemma repairWithContext_nth:
  "i < length s \<Longrightarrow>
   repairWithContext p2 p1 s ! i =
     (if isCL (s ! i)
         \<and> (if i = 0 then p1 else Some (s ! (i - 1))) = Some CHR ''<''
         \<and> (if i = 0 then p2 else if i = 1 then p1 else Some (s ! (i - 2))) \<noteq> Some CHR ''<''
         \<and> Suc i < length s \<and> isUpperAZ (s ! Suc i)
      then CHR ''<'' else s ! i)"
proof (induction s arbitrary: p2 p1 i)
  case Nil
  then show ?case by simp
next
  case (Cons x xs)
  show ?case
  proof (cases i)
    case 0
    then show ?thesis by (cases xs) auto
  next
    case (Suc j)
    then have j: "j < length xs" using Cons.prems by simp
    show ?thesis
    proof (cases j)
      case 0
      with Suc j Cons.IH [OF j, of p1 "Some x"] show ?thesis by simp
    next
      case (Suc k)
      with \<open>i = Suc j\<close> j Cons.IH [OF j, of p1 "Some x"] show ?thesis by simp
    qed
  qed
qed

lemma length_fixSeparators [simp]: "length (fixSeparators s) = length s"
  by (simp add: fixSeparators_def sepScan_True)

lemma fixSeparators_nth:
  assumes "i < length s"
  shows "fixSeparators s ! i = (if separatorSite s i then CHR ''<'' else s ! i)"
proof (cases i)
  case 0
  then show ?thesis
    using assms
    by (simp add: fixSeparators_def sepScan_True repairWithContext_nth separatorSite_def)
next
  case (Suc j)
  then show ?thesis
    using assms
    by (cases j)
      (auto simp: fixSeparators_def sepScan_True repairWithContext_nth separatorSite_def)
qed

text \<open>
  Claim C5, amended. The separator repair keeps the length of the line and replaces by a
  filler exactly the characters \<open>C\<close> and \<open>L\<close> that follow a filler and are followed by
  a letter, where that filler stands at the start of the line or after a character that
  is not a filler; every other character is unchanged. A \<open><C\<close> or \<open><L\<close> whose filler
  follows another filler is left as it is.
\<close>

theorem fixSeparators_pointwise:
  "length (fixSeparators s) = length s
   \<and> (\<forall>i<length s. fixSeparators s ! i = (if separatorSite s i then CHR ''<'' else s ! i))"
  by (simp add: fixSeparators_nth)

theorem fixSeparators_pointwise_witness:
  "(7::nat) < length ''KGZDOE<CJOHN'' \<and> separatorSite ''KGZDOE<CJOHN'' 7
   \<and> fixSeparators ''KGZDOE<CJOHN'' ! 7 = CHR ''<''
   \<and> (4::nat) < length ''<<LEE<LA'' \<and> isCL (''<<LEE<LA'' ! 2) \<and> isUpperAZ (''<<LEE<LA'' ! 3)
   \<and> fixSeparators ''<<LEE<LA'' ! 2 = CHR ''L''"
proof -
  have a: "separatorSite ''KGZDOE<CJOHN'' 7" "\<not> separatorSite ''<<LEE<LA'' 2"
    "isCL (''<<LEE<LA'' ! 2)" "isUpperAZ (''<<LEE<LA'' ! 3)"
    by (simp_all add: separatorSite_def isCL_def isUpperAZ_def charCode_def)
  have "fixSeparators ''KGZDOE<CJOHN'' ! 7 = CHR ''<''"
    using fixSeparators_pointwise [of "''KGZDOE<CJOHN''"] a(1) by auto
  moreover have "fixSeparators ''<<LEE<LA'' ! 2 = CHR ''L''"
    using fixSeparators_pointwise [of "''<<LEE<LA''"] a(2) by auto
  ultimately show ?thesis
    using a by simp
qed

text \<open>
  Claim C5 as stated fails when the filler is itself preceded by a filler: in
  \<open>DOE<<CARL\<close> the \<open><C\<close> is followed by a letter, yet the repair, and the whole
  normalizer, leave the line as it is.
\<close>

theorem fixSeparators_skips_after_filler:
  "fixSeparators ''DOE<<CARL'' = ''DOE<<CARL'' \<and> cleanMrzLine ''DOE<<CARL'' = ''DOE<<CARL''"
  by code_simp

section \<open>Properties of the normalizer\<close>

subsection \<open>Upper case\<close>

lemma toUpperChar_idem: "toUpperChar (toUpperChar c) = toUpperChar c"
proof (cases "isLowerAZ c")
  case True
  have "charCode c - 32 < 256"
    using charCode_less_256 [of c] by simp
  then have "charCode (char_of (charCode c - 32)) = charCode c - 32"
    by (simp add: charCode_def)
  with True have "\<not> isLowerAZ (char_of (charCode c - 32))"
    unfolding isLowerAZ_def by arith
  with True show ?thesis
    by (simp add: toUpperChar_def)
next
  case False
  then show ?thesis by (simp add: toUpperChar_def)
qed

lemma toUpperCase_fixed: "toUpperCase s = s \<longleftrightarrow> (\<forall>c\<in>set s. toUpperChar c = c)"
  by (induction s) (auto simp: toUpperCase_def)

lemma toUpperCase_idem: "toUpperCase (toUpperCase s) = toUpperCase s"
  by (simp add: toUpperCase_def toUpperChar_idem)

lemma toUpperChar_marks:
  "toUpperChar CHR ''<'' = CHR ''<''" "toUpperChar CHR ''P'' = CHR ''P''"
  "toUpperChar CHR ''I'' = CHR ''I''"
  by (simp_all add: toUpperChar_def isLowerAZ_def charCode_def)

lemma toUpperCase_subset:
  assumes "set t \<subseteq> set s \<union> {CHR ''<'', CHR ''P'', CHR ''I''}" "toUpperCase s = s"
  shows "toUpperCase t = t"
  using assms unfolding toUpperCase_fixed
  by (auto simp: toUpperChar_marks)

subsection \<open>Rule 3\<close>

lemma tail_all_fillers:
  "list_all isTailChar s \<Longrightarrow> map (\<lambda>c. if isLCK c then CHR ''<'' else c) s = replicate (length s) CHR ''<''"
  by (induction s) (auto simp: isTailChar_def)

lemma tail_no_LCK:
  "list_all isTailChar s \<Longrightarrow> \<not> list_ex isLCK s \<Longrightarrow> s = replicate (length s) CHR ''<''"
  by (induction s) (auto simp: isTailChar_def)

lemma fixTailFillers_Nil [simp]: "fixTailFillers [] = []"
  by (simp add: fixTailFillers_def)

lemma fixTailFillers_Cons:
  "fixTailFillers (a # t) =
     (if length (a # t) \<ge> 3 \<and> list_all isTailChar (a # t)
      then replicate (length (a # t)) CHR ''<'' else a # fixTailFillers t)"
proof (cases "length (a # t) \<ge> 3 \<and> list_all isTailChar (a # t)")
  case True
  then have m: "tailMatchIndex (a # t) = Some 0" by simp
  show ?thesis
  proof (cases "list_ex isLCK (a # t)")
    case ex: True
    then show ?thesis
      using True m tail_all_fillers [of "a # t"]
      by (simp add: fixTailFillers_def substring_def del: tailMatchIndex.simps)
  next
    case False
    then show ?thesis
      using True m tail_no_LCK [of "a # t"]
      by (simp add: fixTailFillers_def del: tailMatchIndex.simps)
  qed
next
  case False
  then have m: "tailMatchIndex (a # t) = map_option Suc (tailMatchIndex t)" by auto
  show ?thesis
    using False
    by (cases "tailMatchIndex t")
      (auto simp: fixTailFillers_def m substring_def Let_def simp del: tailMatchIndex.simps)
qed

lemma length_fixTailFillers [simp]: "length (fixTailFillers s) = length s"
  by (induction s) (simp_all add: fixTailFillers_Cons)

lemma fixTailFillers_match:
  "length (a # t) \<ge> 3 \<and> list_all isTailChar (a # t) \<Longrightarrow>
     fixTailFillers (a # t) = replicate (length (a # t)) CHR ''<''"
  by (subst fixTailFillers_Cons) (rule if_P)

lemma fixTailFillers_nomatch:
  "\<not> (length (a # t) \<ge> 3 \<and> list_all isTailChar (a # t)) \<Longrightarrow>
     fixTailFillers (a # t) = a # fixTailFillers t"
  by (subst fixTailFillers_Cons) (rule if_not_P)

lemma replicate_soft:
  "list_all isTailChar u \<Longrightarrow>
     list_all2 (\<lambda>p q. q = p \<or> (isLCK p \<and> q = CHR ''<'')) u (replicate (length u) CHR ''<'')"
  by (induction u) (auto simp: isTailChar_def)

lemma fixTailFillers_soft:
  "list_all2 (\<lambda>p q. q = p \<or> (isLCK p \<and> q = CHR ''<'')) s (fixTailFillers s)"
proof (induction s)
  case Nil
  show ?case by simp
next
  case (Cons a t)
  show ?case
  proof (cases "length (a # t) \<ge> 3 \<and> list_all isTailChar (a # t)")
    case True
    then show ?thesis
      by (simp only: fixTailFillers_match replicate_soft)
  next
    case False
    show ?thesis
      by (subst fixTailFillers_nomatch [OF False]) (simp add: Cons)
  qed
qed

lemma fixTailFillers_shape:
  "\<exists>k\<le>length s. fixTailFillers s = take k s @ replicate (length s - k) CHR ''<''"
proof (induction s)
  case Nil
  show ?case by simp
next
  case (Cons a t)
  show ?case
  proof (cases "length (a # t) \<ge> 3 \<and> list_all isTailChar (a # t)")
    case True
    have "fixTailFillers (a # t) = take 0 (a # t) @ replicate (length (a # t) - 0) CHR ''<''"
      by (simp only: fixTailFillers_match [OF True]) simp
    then show ?thesis by blast
  next
    case False
    from Cons obtain k where k: "k \<le> length t"
        "fixTailFillers t = take k t @ replicate (length t - k) CHR ''<''"
      by blast
    have "fixTailFillers (a # t) = take (Suc k) (a # t) @ replicate (length (a # t) - Suc k) CHR ''<''"
      by (simp only: fixTailFillers_nomatch [OF False]) (simp add: k(2) [symmetric])
    with k(1) show ?thesis
      by (intro exI [of _ "Suc k"]) simp
  qed
qed

lemma soft_tail_chars:
  "list_all2 (\<lambda>p q. q = p \<or> (isLCK p \<and> q = CHR ''<'')) s t \<Longrightarrow> list_all isTailChar t
     \<Longrightarrow> list_all isTailChar s"
  by (induction s t rule: list_all2_induct) (auto simp: isTailChar_def)

lemma fixTailFillers_replicate:
  "fixTailFillers (replicate n CHR ''<'') = replicate n CHR ''<''"
proof (induction n)
  case 0
  show ?case by simp
next
  case (Suc n)
  show ?case
  proof (cases "length (CHR ''<'' # replicate n CHR ''<'') \<ge> 3
      \<and> list_all isTailChar (CHR ''<'' # replicate n CHR ''<'')")
    case True
    show ?thesis
      unfolding replicate.simps by (simp only: fixTailFillers_match [OF True]) simp
  next
    case False
    show ?thesis
      unfolding replicate.simps by (simp only: fixTailFillers_nomatch [OF False] Suc)
  qed
qed

lemma fixTailFillers_idem: "fixTailFillers (fixTailFillers s) = fixTailFillers s"
proof (induction s)
  case Nil
  show ?case by simp
next
  case (Cons a t)
  show ?case
  proof (cases "length (a # t) \<ge> 3 \<and> list_all isTailChar (a # t)")
    case True
    show ?thesis
      by (simp only: fixTailFillers_match [OF True] fixTailFillers_replicate)
  next
    case False
    have n: "\<not> (length (a # fixTailFillers t) \<ge> 3 \<and> list_all isTailChar (a # fixTailFillers t))"
      using False soft_tail_chars [OF fixTailFillers_soft, of t] by auto
    show ?thesis
      by (simp only: fixTailFillers_nomatch [OF False] fixTailFillers_nomatch [OF n] Cons)
  qed
qed


subsection \<open>Characters changed by rules 2 and 3\<close>

lemma fixSeparators_soft:
  "list_all2 (\<lambda>p q. q = p \<or> (isLCK p \<and> q = CHR ''<'')) s (fixSeparators s)"
  by (auto simp: list_all2_conv_all_nth fixSeparators_nth separatorSite_def isLCK_def isCL_def)

lemma soft_set:
  "list_all2 (\<lambda>p q. q = p \<or> (isLCK p \<and> q = CHR ''<'')) s t \<Longrightarrow> set t \<subseteq> set s \<union> {CHR ''<''}"
  by (induction s t rule: list_all2_induct) auto

lemma soft_SLCK:
  "q = p \<or> (isLCK p \<and> q = CHR ''<'') \<Longrightarrow> isSLCK q \<Longrightarrow> isSLCK p"
  by (auto simp: isSLCK_def)

lemma soft_letter:
  "q = p \<or> (isLCK p \<and> q = CHR ''<'') \<Longrightarrow> isLetterOrFiller q \<Longrightarrow> isLetterOrFiller p"
  by (auto simp: isLetterOrFiller_def isLCK_def isUpperAZ_def charCode_def)

lemma soft_mark:
  "q = p \<or> (isLCK p \<and> q = CHR ''<'') \<Longrightarrow> q \<noteq> CHR ''<'' \<Longrightarrow> p = q"
  by auto

subsection \<open>Rule 1\<close>

lemma length_fixStart [simp]: "length (fixStart s) = length s"
  by (auto simp: fixStart_def matchesStart_def substringFrom_def Let_def split: list.splits)

lemma set_fixStart: "set (fixStart s) \<subseteq> set s \<union> {CHR ''<'', CHR ''P'', CHR ''I''}"
  by (auto simp: fixStart_def substringFrom_def Let_def dest: in_set_dropD)

lemma matchesStart_iff:
  "matchesStart p s \<longleftrightarrow>
     5 \<le> length s \<and> s ! 0 = p \<and> isSLCK (s ! 1) \<and> isLetterOrFiller (s ! 2)
     \<and> isLetterOrFiller (s ! 3) \<and> isLetterOrFiller (s ! 4)"
  by (auto simp: matchesStart_def split: list.splits)

lemma fixStart_no_match:
  assumes "p = CHR ''P'' \<or> p = CHR ''I''"
  shows "\<not> matchesStart p (fixStart s)"
proof -
  have f: "\<not> isSLCK CHR ''<''" by (simp add: isSLCK_def)
  have a: "\<not> matchesStart p (CHR ''P'' # CHR ''<'' # r)" "\<not> matchesStart p (CHR ''I'' # CHR ''<'' # r)" for r
    using f by (auto simp: matchesStart_def split: list.splits)
  show ?thesis
    using assms a by (auto simp: fixStart_def Let_def)
qed

lemma matchesStart_soft:
  assumes "list_all2 (\<lambda>p q. q = p \<or> (isLCK p \<and> q = CHR ''<'')) a c" "matchesStart p c"
    "p \<noteq> CHR ''<''"
  shows "matchesStart p a"
proof -
  have l: "length a = length c" and
    n: "\<And>i. i < length c \<Longrightarrow> c ! i = a ! i \<or> (isLCK (a ! i) \<and> c ! i = CHR ''<'')"
    using assms(1) by (auto simp: list_all2_conv_all_nth)
  have m: "5 \<le> length c" "c ! 0 = p" "isSLCK (c ! 1)" "isLetterOrFiller (c ! 2)"
    "isLetterOrFiller (c ! 3)" "isLetterOrFiller (c ! 4)"
    using assms(2) by (simp_all add: matchesStart_iff)
  have i: "0 < length c" "1 < length c" "2 < length c" "3 < length c" "4 < length c"
    using m(1) by auto
  have "a ! 0 = p"
    using n [OF i(1)] m(2) assms(3) by auto
  moreover have "isSLCK (a ! 1)"
    using n [OF i(2)] m(3) soft_SLCK [of "c ! 1" "a ! 1"] by auto
  moreover have "isLetterOrFiller (a ! 2)"
    using n [OF i(3)] m(4) soft_letter [of "c ! 2" "a ! 2"] by auto
  moreover have "isLetterOrFiller (a ! 3)"
    using n [OF i(4)] m(5) soft_letter [of "c ! 3" "a ! 3"] by auto
  moreover have "isLetterOrFiller (a ! 4)"
    using n [OF i(5)] m(6) soft_letter [of "c ! 4" "a ! 4"] by auto
  ultimately show ?thesis
    using l m(1) by (simp add: matchesStart_iff)
qed

lemma matchesStart_append:
  "5 \<le> length c \<Longrightarrow> matchesStart p (c @ w) = matchesStart p c"
  by (auto simp: matchesStart_iff nth_append)

lemma fixStart_fixed:
  "\<not> matchesStart CHR ''P'' s \<Longrightarrow> \<not> matchesStart CHR ''I'' s \<Longrightarrow> fixStart s = s"
  by (simp add: fixStart_def)

subsection \<open>Rule 4\<close>

lemma fixLength_cases:
  "fixLength c = c
   \<or> (20 < length c \<and> length c < length (fixLength c)
      \<and> (length (fixLength c) = 44 \<or> length (fixLength c) = 30)
      \<and> fixLength c = c @ replicate (length (fixLength c) - length c) CHR ''<'')"
  by (auto simp: fixLength_def padEnd_def startsWith_def Let_def)

lemma fixLength_full: "length s = 44 \<or> length s = 30 \<Longrightarrow> fixLength s = s"
  by (auto simp: fixLength_def Let_def)


subsection \<open>Separator sites after the repairs\<close>

lemma fixSeparators_fixed:
  assumes "\<And>i. \<not> separatorSite s i"
  shows "fixSeparators s = s"
  by (rule nth_equalityI) (simp_all add: fixSeparators_nth assms)

lemma site_take_fillers:
  assumes "separatorSite (take k s @ replicate m CHR ''<'') i"
  shows "separatorSite s i"
proof -
  let ?t = "take k s @ replicate m CHR ''<''"
  have b: "1 \<le> i" "Suc i < length ?t" "?t ! (i - 1) = CHR ''<''" "isCL (?t ! i)"
    "isUpperAZ (?t ! Suc i)" "i = 1 \<or> ?t ! (i - 2) \<noteq> CHR ''<''"
    using assms by (simp_all add: separatorSite_def)
  have in_take: "Suc i < length (take k s)"
  proof (rule ccontr)
    assume o: "\<not> Suc i < length (take k s)"
    then have "Suc i - length (take k s) < m"
      using b(2) by (simp only: length_append length_replicate)
    then have "replicate m CHR ''<'' ! (Suc i - length (take k s)) = CHR ''<''"
      by (rule nth_replicate)
    with o have "?t ! Suc i = CHR ''<''"
      by (simp only: nth_append if_False)
    with b(5) isUpperAZ_not_filler show False by blast
  qed
  then have r: "Suc i < length s" "Suc i < k"
    by simp_all
  have e: "?t ! j = s ! j" if "j \<le> Suc i" for j
    using that in_take r by (simp add: nth_append)
  show ?thesis
    using b r e [of "i - 1"] e [of i] e [of "Suc i"] e [of "i - 2"]
    by (simp add: separatorSite_def)
qed

lemma no_site_after_fixSeparators: "\<not> separatorSite (fixSeparators a) i"
proof
  let ?b = "fixSeparators a"
  assume site: "separatorSite ?b i"
  then have b: "1 \<le> i" "Suc i < length a" "?b ! (i - 1) = CHR ''<''" "isCL (?b ! i)"
    "isUpperAZ (?b ! Suc i)" "i = 1 \<or> ?b ! (i - 2) \<noteq> CHR ''<''"
    by (simp_all add: separatorSite_def)
  have n: "?b ! j = (if separatorSite a j then CHR ''<'' else a ! j)" if "j \<le> Suc i" for j
    using that b(2) by (simp add: fixSeparators_nth)
  have ni: "\<not> separatorSite a i" "a ! i = ?b ! i"
    using n [of i] b(4) isCL_not_filler [of "?b ! i"] by (auto split: if_splits)
  have ns: "a ! Suc i = ?b ! Suc i"
    using n [of "Suc i"] b(5) isUpperAZ_not_filler [of "?b ! Suc i"] by (auto split: if_splits)
  have np: "a ! (i - 1) = CHR ''<''"
  proof (rule ccontr)
    assume "a ! (i - 1) \<noteq> CHR ''<''"
    then have sp: "separatorSite a (i - 1)"
      using n [of "i - 1"] b(3) by (auto split: if_splits)
    then have "2 \<le> i" "a ! (i - 2) = CHR ''<''"
      by (auto simp: separatorSite_def numeral_2_eq_2)
    moreover have "?b ! (i - 2) = CHR ''<''"
      using n [of "i - 2"] \<open>a ! (i - 2) = CHR ''<''\<close> by simp
    ultimately show False
      using b(6) by simp
  qed
  have nq: "i = 1 \<or> a ! (i - 2) \<noteq> CHR ''<''"
    using n [of "i - 2"] b(6) by (auto split: if_splits)
  have "separatorSite a i"
    using b(1,2,4,5) ni(2) ns np nq by (simp add: separatorSite_def)
  with ni(1) show False by simp
qed


subsection \<open>A second pass of the normalizer\<close>

lemma set_fixLength: "set (fixLength c) \<subseteq> set c \<union> {CHR ''<''}"
proof -
  have "set (c @ replicate m CHR ''<'') \<subseteq> set c \<union> {CHR ''<''}" for m
    by auto
  from this [of "length (fixLength c) - length c"] show ?thesis
    using fixLength_cases [of c] by (cases "fixLength c = c") auto
qed

lemma length_toUpperCase [simp]: "length (toUpperCase s) = length s"
  by (simp add: toUpperCase_def)

lemma cleanMrzLine_upper: "toUpperCase (cleanMrzLine x) = cleanMrzLine x"
proof -
  let ?u = "toUpperCase x"
  let ?a = "fixStart ?u"
  let ?b = "fixSeparators ?a"
  let ?c = "fixTailFillers ?b"
  have "toUpperCase ?u = ?u"
    by (rule toUpperCase_idem)
  then have "toUpperCase ?a = ?a"
    using set_fixStart [of ?u] by (rule toUpperCase_subset [rotated])
  then have "toUpperCase ?b = ?b"
    using soft_set [OF fixSeparators_soft, of ?a]
    by (intro toUpperCase_subset [of ?b ?a]) auto
  then have "toUpperCase ?c = ?c"
    using soft_set [OF fixTailFillers_soft, of ?b]
    by (intro toUpperCase_subset [of ?c ?b]) auto
  then have "toUpperCase (fixLength ?c) = fixLength ?c"
    using set_fixLength [of ?c]
    by (intro toUpperCase_subset [of "fixLength ?c" ?c]) auto
  then show ?thesis
    by (simp add: cleanMrzLine_def)
qed

lemma cleanMrzLine_start:
  assumes "p = CHR ''P'' \<or> p = CHR ''I''"
  shows "\<not> matchesStart p (cleanMrzLine x)"
proof
  let ?a = "fixStart (toUpperCase x)"
  let ?b = "fixSeparators ?a"
  let ?c = "fixTailFillers ?b"
  assume m: "matchesStart p (cleanMrzLine x)"
  have p: "p \<noteq> CHR ''<''"
    using assms by auto
  have "matchesStart p ?c"
    using m fixLength_cases [of ?c] matchesStart_append [of ?c p]
    by (auto simp: cleanMrzLine_def)
  then have "matchesStart p ?b"
    by (rule matchesStart_soft [OF fixTailFillers_soft _ p])
  then have "matchesStart p ?a"
    by (rule matchesStart_soft [OF fixSeparators_soft _ p])
  then show False
    using fixStart_no_match [OF assms] by blast
qed

lemma cleanMrzLine_no_site: "\<not> separatorSite (cleanMrzLine x) i"
proof
  let ?a = "fixStart (toUpperCase x)"
  let ?b = "fixSeparators ?a"
  let ?c = "fixTailFillers ?b"
  assume s: "separatorSite (cleanMrzLine x) i"
  have "separatorSite ?c i"
  proof (cases "fixLength ?c = ?c")
    case True
    with s show ?thesis by (simp add: cleanMrzLine_def)
  next
    case False
    then obtain m where "fixLength ?c = take (length ?c) ?c @ replicate m CHR ''<''"
      using fixLength_cases [of ?c] by auto
    with s show ?thesis
      using site_take_fillers [of "length ?c" ?c m i] by (simp add: cleanMrzLine_def)
  qed
  moreover obtain k where "?c = take k ?b @ replicate (length ?b - k) CHR ''<''"
    using fixTailFillers_shape [of ?b] by blast
  ultimately have "separatorSite ?b i"
    using site_take_fillers [of k ?b "length ?b - k" i] by simp
  then show False
    using no_site_after_fixSeparators by blast
qed

lemma cleanMrzLine_twice_tail:
  "cleanMrzLine (cleanMrzLine x) = fixTailFillers (cleanMrzLine x)"
proof -
  let ?c = "fixTailFillers (fixSeparators (fixStart (toUpperCase x)))"
  let ?y = "cleanMrzLine x"
  have y: "?y = fixLength ?c"
    by (simp add: cleanMrzLine_def)
  have "fixStart ?y = ?y"
    by (rule fixStart_fixed) (simp_all add: cleanMrzLine_start)
  moreover have "fixSeparators ?y = ?y"
    by (rule fixSeparators_fixed) (rule cleanMrzLine_no_site)
  ultimately have t: "cleanMrzLine ?y = fixLength (fixTailFillers ?y)"
    using cleanMrzLine_upper [of x] by (simp add: cleanMrzLine_def [of ?y])
  show ?thesis
  proof (cases "fixLength ?c = ?c")
    case True
    then have "fixTailFillers ?y = ?y"
      using y fixTailFillers_idem by simp
    with t True y show ?thesis by simp
  next
    case False
    then have "length ?y = 44 \<or> length ?y = 30"
      using fixLength_cases [of ?c] y by auto
    then have "fixLength (fixTailFillers ?y) = fixTailFillers ?y"
      by (intro fixLength_full) simp
    with t show ?thesis by simp
  qed
qed

lemma cleanMrzLine_unpadded:
  assumes "length (cleanMrzLine x) = length x"
  shows "fixTailFillers (cleanMrzLine x) = cleanMrzLine x"
proof -
  let ?c = "fixTailFillers (fixSeparators (fixStart (toUpperCase x)))"
  have "length ?c = length x" by simp
  with assms have "fixLength ?c = ?c"
    using fixLength_cases [of ?c] by (auto simp: cleanMrzLine_def)
  then show ?thesis
    by (simp add: cleanMrzLine_def fixTailFillers_idem)
qed

text \<open>
  Claim C6, amended. A second pass of the normalizer does nothing but the trailing-filler
  repair: \<open>cleanMrzLine (cleanMrzLine x)\<close> is \<open>cleanMrzLine x\<close> with rule 3 applied once
  more. So the normalizer is idempotent on every line that the length repair does not pad,
  that is, whenever \<open>cleanMrzLine x\<close> has the length of \<open>x\<close>. (When the line is padded,
  the fillers added after one or two trailing letters \<open>L\<close>, \<open>C\<close>, \<open>K\<close> make a run that
  rule 3 rewrites in the second pass.)
\<close>

theorem cleanMrzLine_second_pass:
  "cleanMrzLine (cleanMrzLine x) = fixTailFillers (cleanMrzLine x)
   \<and> (length (cleanMrzLine x) = length x \<longrightarrow> cleanMrzLine (cleanMrzLine x) = cleanMrzLine x)"
  by (simp add: cleanMrzLine_twice_tail cleanMrzLine_unpadded)



theorem cleanMrzLine_second_pass_witness:
  "length (cleanMrzLine ''pcKGZAB<CDEKKK'') = length ''pcKGZAB<CDEKKK''
   \<and> cleanMrzLine ''pcKGZAB<CDEKKK'' = ''P<KGZAB<<DE<<<''
   \<and> cleanMrzLine (cleanMrzLine ''pcKGZAB<CDEKKK'') = cleanMrzLine ''pcKGZAB<CDEKKK''"
proof -
  have e: "cleanMrzLine ''pcKGZAB<CDEKKK'' = ''P<KGZAB<<DE<<<''"
    by code_simp
  then have "length (cleanMrzLine ''pcKGZAB<CDEKKK'') = length ''pcKGZAB<CDEKKK''"
    by simp
  then show ?thesis
    using cleanMrzLine_second_pass [of "''pcKGZAB<CDEKKK''"] e by blast
qed

text \<open>
  Claim C6 as stated fails on a line that is padded after a trailing \<open>K\<close>: the first
  pass pads the 36 characters to 44, and the second pass then takes \<open>K<<<<<<<<\<close> for a
  run of fillers and rewrites the last letter of the name.
\<close>

theorem cleanMrzLine_not_idempotent:
  "cleanMrzLine ''P<KGZABDYLDAEV<<NURSULTAN<JOLDOSHBEK'' =
     ''P<KGZABDYLDAEV<<NURSULTAN<JOLDOSHBEK<<<<<<<<''
   \<and> cleanMrzLine (cleanMrzLine ''P<KGZABDYLDAEV<<NURSULTAN<JOLDOSHBEK'') =
     ''P<KGZABDYLDAEV<<NURSULTAN<JOLDOSHBE<<<<<<<<<''
   \<and> cleanMrzLine (cleanMrzLine ''P<KGZABDYLDAEV<<NURSULTAN<JOLDOSHBEK'') \<noteq>
     cleanMrzLine ''P<KGZABDYLDAEV<<NURSULTAN<JOLDOSHBEK''"
proof -
  have a: "cleanMrzLine ''P<KGZABDYLDAEV<<NURSULTAN<JOLDOSHBEK'' =
     ''P<KGZABDYLDAEV<<NURSULTAN<JOLDOSHBEK<<<<<<<<''"
    by code_simp
  have b: "cleanMrzLine ''P<KGZABDYLDAEV<<NURSULTAN<JOLDOSHBEK<<<<<<<<'' =
     ''P<KGZABDYLDAEV<<NURSULTAN<JOLDOSHBE<<<<<<<<<''"
    by code_simp
  show ?thesis
    by (simp add: a b)
qed

end
